theory Spec2Isabelle
  imports Complex_Main "HOL-Library.Char_ord" "HOL-Library.List_Lexorder" "HOL-Library.Multiset"
begin

section \<open>PyGit: object store, staging index, commits and references\<close>

text \<open>
  The development follows \<^verbatim>\<open>src/main.py\<close>. Conventions of the embedding:
  \<^item> \<^verbatim>\<open>bytes\<close> values are \<^typ>\<open>string\<close> (lists of 8-bit characters);
  \<^item> a \<^verbatim>\<open>str\<close> value is held as its UTF-8 encoding, again a \<^typ>\<open>string\<close>; a lone
    surrogate in a \<^verbatim>\<open>str\<close> (an undecodable byte of a file name or of \<^verbatim>\<open>argv\<close>, a
    \<^verbatim>\<open>\udcXX\<close> escape of JSON) is held as bytes that are not well-formed UTF-8. So
    \<^verbatim>\<open>str.encode()\<close> returns a well-formed text as it is and raises \<^verbatim>\<open>UnicodeEncodeError\<close>
    otherwise, and \<^verbatim>\<open>bytes.decode()\<close> does the same with \<^verbatim>\<open>UnicodeDecodeError\<close>;
  \<^item> every exception is a value of \<open>pyerror\<close>; a function that can raise returns
    \<open>pyerror + 'a\<close>, and one that also writes to disk returns the file system with it;
  \<^item> the file system is a map from absolute paths (lists of segments) to nodes; symbolic
    links, permissions and the resolution of \<^verbatim>\<open>..\<close> are outside the model;
  \<^item> functions of libraries outside the repository (\<^verbatim>\<open>hashlib.sha1\<close>, \<^verbatim>\<open>float\<close>,
    \<^verbatim>\<open>int\<close> on a float, \<^verbatim>\<open>datetime\<close> formatting, \<^verbatim>\<open>json.load\<close>) are parameters of
    the functions that call them.
\<close>

subsection \<open>Exceptions\<close>

datatype pyerror =
    PyGitError string
  | FileNotFoundError
  | FileExistsError
  | NotADirectoryError
  | IsADirectoryError
  | UnicodeDecodeError
  | UnicodeEncodeError
  | JSONDecodeError
  | KeyError
  | IndexError
  | ValueError
  | TypeError
  | AttributeError
  | OverflowError

subsection \<open>Bytes and text\<close>

abbreviation NUL :: char where "NUL \<equiv> CHR 0x00"
abbreviation LF :: char where "LF \<equiv> CHR 0x0A"
abbreviation CR :: char where "CR \<equiv> CHR 0x0D"
abbreviation SP :: char where "SP \<equiv> CHR '' ''"

definition byte :: "char \<Rightarrow> nat" where
  "byte c = of_char c"

text \<open>\<^verbatim>\<open>str(n)\<close> for a non-negative integer: its decimal digits.\<close>

definition digit_char :: "nat \<Rightarrow> char" where
  "digit_char d = char_of (48 + d)"

fun str_nat :: "nat \<Rightarrow> string" where
  "str_nat n = (if n < 10 then [digit_char n] else str_nat (n div 10) @ [digit_char (n mod 10)])"

declare str_nat.simps [simp del]

text \<open>\<^verbatim>\<open>str(i)\<close> for an integer.\<close>

definition str_int :: "int \<Rightarrow> string" where
  "str_int i = (if i < 0 then CHR ''-'' # str_nat (nat (- i)) else str_nat (nat i))"

text \<open>The strict UTF-8 decoder: shortest forms only, no surrogates, nothing above U+10FFFF.\<close>

definition cont :: "char \<Rightarrow> bool" where
  "cont c = (0x80 \<le> byte c \<and> byte c \<le> 0xBF)"

fun utf8_valid :: "string \<Rightarrow> bool" where
  "utf8_valid [] = True"
| "utf8_valid (a # s) =
     (if byte a < 0x80 then utf8_valid s
      else if 0xC2 \<le> byte a \<and> byte a \<le> 0xDF then
        (case s of b # s1 \<Rightarrow> cont b \<and> utf8_valid s1 | _ \<Rightarrow> False)
      else if 0xE0 \<le> byte a \<and> byte a \<le> 0xEF then
        (case s of b # c # s2 \<Rightarrow>
             cont b \<and> cont c \<and> (byte a = 0xE0 \<longrightarrow> 0xA0 \<le> byte b)
               \<and> (byte a = 0xED \<longrightarrow> byte b \<le> 0x9F) \<and> utf8_valid s2
         | _ \<Rightarrow> False)
      else if 0xF0 \<le> byte a \<and> byte a \<le> 0xF4 then
        (case s of b # c # d # s3 \<Rightarrow>
             cont b \<and> cont c \<and> cont d \<and> (byte a = 0xF0 \<longrightarrow> 0x90 \<le> byte b)
               \<and> (byte a = 0xF4 \<longrightarrow> byte b \<le> 0x8F) \<and> utf8_valid s3
         | _ \<Rightarrow> False)
      else False)"

definition decode :: "string \<Rightarrow> pyerror + string" where
  "decode b = (if utf8_valid b then Inr b else Inl UnicodeDecodeError)"

definition encode :: "string \<Rightarrow> pyerror + string" where
  "encode text = (if utf8_valid text then Inr text else Inl UnicodeEncodeError)"

text \<open>
  \<^verbatim>\<open>s[:n]\<close> and \<^verbatim>\<open>s[n:]\<close> count code points: a continuation byte stays with the byte
  that leads it.
\<close>

fun cp_take :: "nat \<Rightarrow> string \<Rightarrow> string" where
  "cp_take 0 s = []"
| "cp_take (Suc n) [] = []"
| "cp_take (Suc n) (c # s) = c # takeWhile cont s @ cp_take n (dropWhile cont s)"

fun cp_drop :: "nat \<Rightarrow> string \<Rightarrow> string" where
  "cp_drop 0 s = s"
| "cp_drop (Suc n) [] = []"
| "cp_drop (Suc n) (c # s) = cp_drop n (dropWhile cont s)"

text \<open>
  The characters for which \<^verbatim>\<open>str.isspace()\<close> holds, in UTF-8: U+0009..U+000D,
  U+001C..U+0020, U+0085, U+00A0, U+1680, U+2000..U+200A, U+2028, U+2029, U+202F, U+205F,
  U+3000. \<open>ws_prefix s\<close> is the number of bytes of the whitespace character that \<open>s\<close>
  starts with, 0 when it starts with none.
\<close>

definition ascii_space :: "char \<Rightarrow> bool" where
  "ascii_space c = ((9 \<le> byte c \<and> byte c \<le> 13) \<or> (28 \<le> byte c \<and> byte c \<le> 32))"

fun ws_prefix :: "string \<Rightarrow> nat" where
  "ws_prefix [] = 0"
| "ws_prefix (a # s) =
     (if byte a < 0x80 then (if ascii_space a then 1 else 0)
      else if byte a = 0xC2 then
        (case s of b # _ \<Rightarrow> if byte b = 0x85 \<or> byte b = 0xA0 then 2 else 0 | _ \<Rightarrow> 0)
      else if byte a = 0xE1 then
        (case s of b # c # _ \<Rightarrow> if byte b = 0x9A \<and> byte c = 0x80 then 3 else 0 | _ \<Rightarrow> 0)
      else if byte a = 0xE2 then
        (case s of b # c # _ \<Rightarrow>
            if byte b = 0x80 \<and> ((0x80 \<le> byte c \<and> byte c \<le> 0x8A) \<or> byte c = 0xA8
                 \<or> byte c = 0xA9 \<or> byte c = 0xAF) then 3
            else if byte b = 0x81 \<and> byte c = 0x9F then 3 else 0
         | _ \<Rightarrow> 0)
      else if byte a = 0xE3 then
        (case s of b # c # _ \<Rightarrow> if byte b = 0x80 \<and> byte c = 0x80 then 3 else 0 | _ \<Rightarrow> 0)
      else 0)"

text \<open>The same test at the end of a string, read on the reversed string.\<close>

fun ws_suffix_rev :: "string \<Rightarrow> nat" where
  "ws_suffix_rev [] = 0"
| "ws_suffix_rev (z # r) =
     (if byte z < 0x80 then (if ascii_space z then 1 else 0)
      else if ws_prefix (rev (take 2 (z # r))) = 2 then 2
      else if ws_prefix (rev (take 3 (z # r))) = 3 then 3
      else 0)"

function lstrip :: "string \<Rightarrow> string" where
  "lstrip s = (if ws_prefix s = 0 then s else lstrip (drop (ws_prefix s) s))"
  by pat_completeness auto
termination
proof (relation "measure length", goal_cases)
  case 1
  show ?case by simp
next
  case (2 s)
  then have "s \<noteq> []" by auto
  with 2 show ?case by simp
qed

function rstrip_rev :: "string \<Rightarrow> string" where
  "rstrip_rev r = (if ws_suffix_rev r = 0 then r else rstrip_rev (drop (ws_suffix_rev r) r))"
  by pat_completeness auto
termination
proof (relation "measure length", goal_cases)
  case 1
  show ?case by simp
next
  case (2 r)
  then have "r \<noteq> []" by auto
  with 2 show ?case by simp
qed

declare lstrip.simps [simp del] rstrip_rev.simps [simp del]

text \<open>\<^verbatim>\<open>s.strip()\<close>.\<close>

definition strip :: "string \<Rightarrow> string" where
  "strip s = rev (rstrip_rev (rev (lstrip s)))"

text \<open>
  \<^verbatim>\<open>s.split()\<close>: the maximal runs of non-whitespace characters. \<open>token s\<close> is the run
  that \<open>s\<close> starts with.
\<close>

fun token :: "string \<Rightarrow> string" where
  "token [] = []"
| "token (c # s) = (if 0 < ws_prefix (c # s) then [] else c # token s)"

lemma ws_prefix_lstrip: "ws_prefix (lstrip s) = 0"
  by (induction s rule: lstrip.induct) (subst lstrip.simps, simp)

lemma token_nonempty: "s \<noteq> [] \<Longrightarrow> ws_prefix s = 0 \<Longrightarrow> token s \<noteq> []"
  by (cases s) auto

function split_ws :: "string \<Rightarrow> string list" where
  "split_ws s =
     (let s1 = lstrip s
      in if s1 = [] then [] else token s1 # split_ws (drop (length (token s1)) s1))"
  by pat_completeness auto
termination
proof (relation "measure length", goal_cases)
  case 1
  show ?case by simp
next
  case (2 s s1)
  have le: "length (lstrip t) \<le> length t" for t
    by (induction t rule: lstrip.induct) (subst lstrip.simps, auto)
  from 2 have "token s1 \<noteq> []"
    using token_nonempty ws_prefix_lstrip by blast
  then have "0 < length (token s1)" by simp
  moreover from 2 have "0 < length s1" by simp
  ultimately have "length s1 - length (token s1) < length s1" by arith
  with 2 le [of s] show ?case by simp
qed

declare split_ws.simps [simp del]

text \<open>\<^verbatim>\<open>s.split(c)\<close> for a one-character separator.\<close>

fun split_on :: "char \<Rightarrow> string \<Rightarrow> string list" where
  "split_on c [] = [[]]"
| "split_on c (x # xs) =
     (if x = c then [] # split_on c xs
      else (case split_on c xs of w # ws \<Rightarrow> (x # w) # ws | [] \<Rightarrow> [[x]]))"

text \<open>\<^verbatim>\<open>s.split(c, n)\<close>: at most \<open>n\<close> cuts, from the left.\<close>

fun splitn :: "char \<Rightarrow> nat \<Rightarrow> string \<Rightarrow> string list" where
  "splitn c 0 xs = [xs]"
| "splitn c (Suc n) [] = [[]]"
| "splitn c (Suc n) (x # xs) =
     (if x = c then [] # splitn c n xs
      else (case splitn c (Suc n) xs of w # ws \<Rightarrow> (x # w) # ws | [] \<Rightarrow> [[x]]))"

text \<open>\<^verbatim>\<open>s.rsplit(c, n)\<close>: at most \<open>n\<close> cuts, from the right.\<close>

definition rsplit :: "char \<Rightarrow> nat \<Rightarrow> string \<Rightarrow> string list" where
  "rsplit c n s = rev (map rev (splitn c n (rev s)))"

text \<open>\<^verbatim>\<open>sep.join(xs)\<close>.\<close>

fun join :: "string \<Rightarrow> string list \<Rightarrow> string" where
  "join sep [] = []"
| "join sep [x] = x"
| "join sep (x # y # ys) = x @ sep @ join sep (y # ys)"

text \<open>\<^verbatim>\<open>s.startswith(p)\<close>.\<close>

definition startswith :: "string \<Rightarrow> string \<Rightarrow> bool" where
  "startswith s p = (take (length p) s = p)"

text \<open>\<^verbatim>\<open>os.path.basename\<close>: what follows the last slash.\<close>

definition basename :: "string \<Rightarrow> string" where
  "basename p = rev (takeWhile (\<lambda>c. c \<noteq> CHR ''/'') (rev p))"

text \<open>Reading in text mode translates \<^verbatim>\<open>\r\n\<close> and \<^verbatim>\<open>\r\<close> to \<^verbatim>\<open>\n\<close>.\<close>

fun univ_newlines :: "string \<Rightarrow> string" where
  "univ_newlines [] = []"
| "univ_newlines [c] = (if c = CR then [LF] else [c])"
| "univ_newlines (c # d # s) =
     (if c = CR \<and> d = LF then LF # univ_newlines s
      else if c = CR then LF # univ_newlines (d # s)
      else c # univ_newlines (d # s))"

subsection \<open>Paths and the file system\<close>

text \<open>
  A path is the list of its segments below the root directory \<^verbatim>\<open>/\<close>. \<open>pjoin\<close> is the
  operator \<^verbatim>\<open>/\<close> of \<^verbatim>\<open>pathlib\<close>: the right operand is cut at slashes, empty segments
  and \<^verbatim>\<open>.\<close> are dropped, and an operand that starts with a slash replaces the left path.
\<close>

type_synonym path = "string list"

definition path_parts :: "string \<Rightarrow> string list" where
  "path_parts s = filter (\<lambda>seg. seg \<noteq> [] \<and> seg \<noteq> ''.'') (split_on (CHR ''/'') s)"

definition pjoin :: "path \<Rightarrow> string \<Rightarrow> path" where
  "pjoin p s = (if startswith s ''/'' then path_parts s else p @ path_parts s)"

text \<open>\<^verbatim>\<open>Path.parent\<close>; the root is its own parent.\<close>

definition parent_dir :: "path \<Rightarrow> path" where
  "parent_dir p = butlast p"

text \<open>\<^verbatim>\<open>str(path)\<close>.\<close>

definition path_str :: "path \<Rightarrow> string" where
  "path_str p = CHR ''/'' # join ''/'' p"

datatype node = File string | Dir

type_synonym fs = "path \<Rightarrow> node option"

definition stat :: "fs \<Rightarrow> path \<Rightarrow> node option" where
  "stat fs p = (if p = [] then Some Dir else fs p)"

definition path_exists :: "fs \<Rightarrow> path \<Rightarrow> bool" where
  "path_exists fs p = (stat fs p \<noteq> None)"

definition is_dir :: "fs \<Rightarrow> path \<Rightarrow> bool" where
  "is_dir fs p = (stat fs p = Some Dir)"

text \<open>\<^verbatim>\<open>os.mkdir\<close>.\<close>

definition os_mkdir :: "fs \<Rightarrow> path \<Rightarrow> pyerror + fs" where
  "os_mkdir fs p =
     (case stat fs p of
        Some _ \<Rightarrow> Inl FileExistsError
      | None \<Rightarrow>
          (case stat fs (parent_dir p) of
             None \<Rightarrow> Inl FileNotFoundError
           | Some (File _) \<Rightarrow> Inl NotADirectoryError
           | Some Dir \<Rightarrow> Inr (fs(p \<mapsto> Dir))))"

text \<open>
  \<^verbatim>\<open>Path.mkdir(exist_ok=True)\<close> without \<^verbatim>\<open>parents\<close>: an \<^verbatim>\<open>OSError\<close> is swallowed when
  the path is a directory.
\<close>

definition mkdir_exist_ok :: "fs \<Rightarrow> path \<Rightarrow> (pyerror + unit) \<times> fs" where
  "mkdir_exist_ok fs p =
     (case os_mkdir fs p of
        Inr fs1 \<Rightarrow> (Inr (), fs1)
      | Inl e \<Rightarrow> if is_dir fs p then (Inr (), fs) else (Inl e, fs))"

text \<open>
  \<^verbatim>\<open>Path.mkdir(parents=True, exist_ok=True)\<close>, as \<^verbatim>\<open>pathlib\<close> runs it: try
  \<^verbatim>\<open>os.mkdir\<close>; on \<^verbatim>\<open>FileNotFoundError\<close> make the parent the same way and try once more;
  on any other \<^verbatim>\<open>OSError\<close> succeed only when the path is a directory.
\<close>

function mkdir_parents :: "fs \<Rightarrow> path \<Rightarrow> (pyerror + unit) \<times> fs" where
  "mkdir_parents fs p =
     (case os_mkdir fs p of
        Inr fs1 \<Rightarrow> (Inr (), fs1)
      | Inl e \<Rightarrow>
          if e = FileNotFoundError then
            (if parent_dir p = p then (Inl e, fs)
             else (case mkdir_parents fs (parent_dir p) of
                     (Inl e1, fs1) \<Rightarrow> (Inl e1, fs1)
                   | (Inr _, fs1) \<Rightarrow> mkdir_exist_ok fs1 p))
          else if is_dir fs p then (Inr (), fs) else (Inl e, fs))"
  by pat_completeness auto
termination
proof (relation "measure (\<lambda>(fs, p). length p)", goal_cases)
  case 1
  show ?case by simp
next
  case (2 fs p e)
  then have "p \<noteq> []" by (auto simp: parent_dir_def)
  then show ?case by (simp add: parent_dir_def)
qed

declare mkdir_parents.simps [simp del]

text \<open>\<^verbatim>\<open>open(p, 'wb')\<close> followed by one \<^verbatim>\<open>write\<close>; \<^verbatim>\<open>open(p, 'rb')\<close> followed by \<^verbatim>\<open>read\<close>.\<close>

definition write_file :: "fs \<Rightarrow> path \<Rightarrow> string \<Rightarrow> pyerror + fs" where
  "write_file fs p data =
     (case stat fs p of
        Some Dir \<Rightarrow> Inl IsADirectoryError
      | _ \<Rightarrow>
          (case stat fs (parent_dir p) of
             None \<Rightarrow> Inl FileNotFoundError
           | Some (File _) \<Rightarrow> Inl NotADirectoryError
           | Some Dir \<Rightarrow> Inr (fs(p \<mapsto> File data))))"

definition read_file :: "fs \<Rightarrow> path \<Rightarrow> pyerror + string" where
  "read_file fs p =
     (case stat fs p of
        None \<Rightarrow> Inl FileNotFoundError
      | Some Dir \<Rightarrow> Inl IsADirectoryError
      | Some (File data) \<Rightarrow> Inr data)"

text \<open>
  Text mode, with UTF-8 as the encoding of the locale. \<^verbatim>\<open>open(p, 'w')\<close> creates or empties
  the file; the \<^verbatim>\<open>write\<close> that follows encodes the text, so a text that cannot be encoded
  raises with the file left empty. \<^verbatim>\<open>open(p, 'r')\<close> decodes and translates line ends.
\<close>

definition write_text :: "fs \<Rightarrow> path \<Rightarrow> string \<Rightarrow> (pyerror + unit) \<times> fs" where
  "write_text fs p text =
     (case write_file fs p [] of
        Inl e \<Rightarrow> (Inl e, fs)
      | Inr fs1 \<Rightarrow>
          (case encode text of
             Inl e \<Rightarrow> (Inl e, fs1)
           | Inr data \<Rightarrow> (Inr (), fs1(p \<mapsto> File data))))"

definition read_text :: "fs \<Rightarrow> path \<Rightarrow> pyerror + string" where
  "read_text fs p =
     (case read_file fs p of
        Inl e \<Rightarrow> Inl e
      | Inr data \<Rightarrow> (case decode data of Inl e \<Rightarrow> Inl e | Inr text \<Rightarrow> Inr (univ_newlines text)))"

subsection \<open>Constants of the repository layout\<close>

definition PYGIT_DIR :: string where "PYGIT_DIR = ''.pygit''"
definition OBJECTS_DIR :: string where "OBJECTS_DIR = ''objects''"
definition REFS_DIR :: string where "REFS_DIR = ''refs''"
definition HEADS_DIR :: string where "HEADS_DIR = ''heads''"
definition INDEX_FILE :: string where "INDEX_FILE = ''index''"
definition HEAD_FILE :: string where "HEAD_FILE = ''HEAD''"
definition CONFIG_FILE :: string where "CONFIG_FILE = ''config''"

subsection \<open>ObjectStore\<close>

text \<open>
  \<open>repo_path\<close> is the resolved repository directory. \<open>H\<close> stands for
  \<^verbatim>\<open>hashlib.sha1(b).hexdigest()\<close>.
\<close>

definition objects_path :: "path \<Rightarrow> path" where
  "objects_path repo_path = pjoin (pjoin repo_path PYGIT_DIR) OBJECTS_DIR"

definition get_object_path :: "path \<Rightarrow> string \<Rightarrow> path" where
  "get_object_path repo_path hash_str =
     pjoin (pjoin (objects_path repo_path) (cp_take 2 hash_str)) (cp_drop 2 hash_str)"

definition object_header :: "string \<Rightarrow> string \<Rightarrow> string" where
  "object_header obj_type content = obj_type @ '' '' @ str_nat (length content) @ [NUL]"

definition store_object ::
  "(string \<Rightarrow> string) \<Rightarrow> path \<Rightarrow> fs \<Rightarrow> string \<Rightarrow> string \<Rightarrow> (pyerror + string) \<times> fs" where
  "store_object H repo_path fs content obj_type =
     (case encode (object_header obj_type content) of
        Inl e \<Rightarrow> (Inl e, fs)
      | Inr header \<Rightarrow>
          (let full_content = header @ content;
               hash_str = H full_content;
               obj_path = get_object_path repo_path hash_str
           in case mkdir_parents fs (parent_dir obj_path) of
                (Inl e, fs1) \<Rightarrow> (Inl e, fs1)
              | (Inr _, fs1) \<Rightarrow>
                  (case write_file fs1 obj_path full_content of
                     Inl e \<Rightarrow> (Inl e, fs1)
                   | Inr fs2 \<Rightarrow> (Inr hash_str, fs2))))"

definition get_object :: "path \<Rightarrow> fs \<Rightarrow> string \<Rightarrow> pyerror + (string \<times> string)" where
  "get_object repo_path fs hash_str =
     (let obj_path = get_object_path repo_path hash_str
      in if \<not> path_exists fs obj_path
         then Inl (PyGitError (''Object '' @ hash_str @ '' not found''))
         else
           (case read_file fs obj_path of
              Inl e \<Rightarrow> Inl e
            | Inr content \<Rightarrow>
                if NUL \<notin> set content
                then Inl (PyGitError (''Invalid object format for '' @ hash_str))
                else
                  (case decode (takeWhile (\<lambda>c. c \<noteq> NUL) content) of
                     Inl e \<Rightarrow> Inl e
                   | Inr header \<Rightarrow>
                       (let obj_content = tl (dropWhile (\<lambda>c. c \<noteq> NUL) content)
                        in case split_ws header of
                             [] \<Rightarrow> Inl IndexError
                           | obj_type # _ \<Rightarrow> Inr (obj_type, obj_content)))))"

text \<open>
  A character of a type tag as the callers write them: ASCII, not whitespace, not NUL.
\<close>

definition plain :: "char \<Rightarrow> bool" where
  "plain c = (byte c < 0x80 \<and> \<not> ascii_space c \<and> c \<noteq> NUL)"

text \<open>
  The theorems below hold for every digest function. To run the model on concrete inputs
  some function has to stand in \<open>H\<close>'s place; \<open>sample_digest\<close> is one (it is not SHA-1).
\<close>

definition sample_digest :: "string \<Rightarrow> string" where
  "sample_digest b = ''5a'' @ str_nat (length b)"

definition demo_root :: path where
  "demo_root = [''repo'']"

subsection \<open>Floats\<close>

text \<open>
  A finite \<^verbatim>\<open>float\<close> is held as the rational number it denotes. The code applies only
  \<^verbatim>\<open>int()\<close> to a float, which truncates towards zero and raises on infinities and NaN.
\<close>

datatype pyfloat = Float rat | PosInf | NegInf | NaN

definition py_int :: "pyfloat \<Rightarrow> pyerror + int" where
  "py_int x =
     (case x of
        Float r \<Rightarrow> Inr (if 0 \<le> r then \<lfloor>r\<rfloor> else \<lceil>r\<rceil>)
      | PosInf \<Rightarrow> Inl OverflowError
      | NegInf \<Rightarrow> Inl OverflowError
      | NaN \<Rightarrow> Inl ValueError)"

subsection \<open>Python values and data classes\<close>

text \<open>
  The values that \<^verbatim>\<open>json.load\<close> returns: \<^verbatim>\<open>None\<close>, booleans, integers, floats, strings, lists
  and dicts. A \<open>JObj\<close> holds the items of a \<^verbatim>\<open>dict\<close> in their order, so its keys are pairwise
  distinct.
\<close>

datatype json =
    JNull
  | JBool bool
  | JInt int
  | JFloat pyfloat
  | JStr string
  | JArr "json list"
  | JObj "(string \<times> json) list"

text \<open>
  A data class does not check the values it is given against the annotations of its fields:
  a \<open>FileEntry\<close> read from the index holds whatever values the file gave, and a \<open>TreeEntry\<close>
  takes its mode and hash from a \<open>FileEntry\<close>. So these fields hold values, not strings.
\<close>

record FileEntry =
  fe_path :: json
  fe_hash :: json
  fe_mode :: json
  fe_size :: json
  fe_mtime :: json

record TreeEntry =
  te_mode :: json
  te_name :: string
  te_hash :: json
  te_type :: string

text \<open>
  How an f-string renders a value. The text of a float, a list or a dict is \<open>R\<close>, a parameter;
  a string is rendered as it is.
\<close>

definition fstr :: "(json \<Rightarrow> string) \<Rightarrow> json \<Rightarrow> string" where
  "fstr R v =
     (case v of
        JStr s \<Rightarrow> s
      | JInt i \<Rightarrow> str_int i
      | JNull \<Rightarrow> ''None''
      | JBool b \<Rightarrow> (if b then ''True'' else ''False'')
      | _ \<Rightarrow> R v)"

text \<open>
  A staging map is a \<^verbatim>\<open>dict\<close> from path to \<open>FileEntry\<close>: the list of its items in insertion
  order, which is the order in which \<^verbatim>\<open>items()\<close> yields them.
\<close>

type_synonym staging = "(string \<times> FileEntry) list"

subsection \<open>Index.load\<close>

definition field_names :: "string list" where
  "field_names = [''path'', ''hash'', ''mode'', ''size'', ''mtime'']"

text \<open>
  \<^verbatim>\<open>FileEntry(**entry_data)\<close>: a \<^verbatim>\<open>TypeError\<close> when \<open>entry_data\<close> is not a mapping, when one
  of the five fields has no value and when there is a key that is not a field; otherwise the
  object holds the five values as they are.
\<close>

definition FileEntry_kwargs :: "json \<Rightarrow> pyerror + FileEntry" where
  "FileEntry_kwargs entry_data =
     (case entry_data of
        JObj kw \<Rightarrow>
          (case (map_of kw ''path'', map_of kw ''hash'', map_of kw ''mode'', map_of kw ''size'',
                 map_of kw ''mtime'') of
             (Some p, Some h, Some m, Some s, Some t) \<Rightarrow>
               if set (map fst kw) \<subseteq> set field_names
               then Inr \<lparr>fe_path = p, fe_hash = h, fe_mode = m, fe_size = s, fe_mtime = t\<rparr>
               else Inl TypeError
           | _ \<Rightarrow> Inl TypeError)
      | _ \<Rightarrow> Inl TypeError)"

fun entries_of_items :: "(string \<times> json) list \<Rightarrow> pyerror + staging" where
  "entries_of_items [] = Inr []"
| "entries_of_items ((path, entry_data) # items) =
     (case FileEntry_kwargs entry_data of
        Inl e \<Rightarrow> Inl e
      | Inr entry \<Rightarrow>
          (case entries_of_items items of
             Inl e \<Rightarrow> Inl e
           | Inr entries \<Rightarrow> Inr ((path, entry) # entries)))"

text \<open>The dict comprehension over \<^verbatim>\<open>data.items()\<close>; only a \<^verbatim>\<open>dict\<close> has \<^verbatim>\<open>items\<close>.\<close>

definition entries_of_data :: "json \<Rightarrow> pyerror + staging" where
  "entries_of_data data =
     (case data of JObj items \<Rightarrow> entries_of_items items | _ \<Rightarrow> Inl AttributeError)"

definition index_path :: "path \<Rightarrow> path" where
  "index_path repo_path = pjoin (pjoin repo_path PYGIT_DIR) INDEX_FILE"

text \<open>
  The body of the \<^verbatim>\<open>try\<close>: open in text mode, parse, build the entries. The parser is the
  parameter \<open>J\<close>.
\<close>

definition load_body :: "(string \<Rightarrow> pyerror + json) \<Rightarrow> fs \<Rightarrow> path \<Rightarrow> pyerror + staging" where
  "load_body J fs p =
     (case read_text fs p of
        Inl e \<Rightarrow> Inl e
      | Inr text \<Rightarrow> (case J text of Inl e \<Rightarrow> Inl e | Inr data \<Rightarrow> entries_of_data data))"

text \<open>\<^verbatim>\<open>except (json.JSONDecodeError, KeyError): self.entries = {}\<close>.\<close>

definition load_except :: "pyerror + staging \<Rightarrow> pyerror + staging" where
  "load_except r =
     (case r of
        Inl e \<Rightarrow> if e = JSONDecodeError \<or> e = KeyError then Inr [] else Inl e
      | Inr entries \<Rightarrow> Inr entries)"

text \<open>
  \<open>Index_load\<close> takes the entries the object holds and returns those it holds afterwards;
  \<open>Index_init\<close> is the constructor, which starts from the empty map.
\<close>

definition Index_load :: "(string \<Rightarrow> pyerror + json) \<Rightarrow> path \<Rightarrow> fs \<Rightarrow> staging \<Rightarrow> pyerror + staging" where
  "Index_load J repo_path fs entries =
     (if path_exists fs (index_path repo_path)
      then load_except (load_body J fs (index_path repo_path))
      else Inr entries)"

definition Index_init :: "(string \<Rightarrow> pyerror + json) \<Rightarrow> path \<Rightarrow> fs \<Rightarrow> pyerror + staging" where
  "Index_init J repo_path fs = Index_load J repo_path fs []"

text \<open>A parser that accepts no text; it agrees with \<^verbatim>\<open>json.load\<close> on every text that is not JSON.\<close>

definition reject_all :: "string \<Rightarrow> pyerror + json" where
  "reject_all text = Inl JSONDecodeError"

subsection \<open>Repository._create_tree\<close>

definition tree_entry_of :: "string \<times> FileEntry \<Rightarrow> TreeEntry" where
  "tree_entry_of item =
     (case item of (file_path, entry) \<Rightarrow>
        \<lparr>te_mode = fe_mode entry, te_name = basename file_path, te_hash = fe_hash entry,
         te_type = ''blob''\<rparr>)"

text \<open>
  \<^verbatim>\<open>tree_entries.sort(key=lambda x: x.name)\<close>: a stable sort; strings compare by code points,
  which is the order of their UTF-8 bytes.
\<close>

definition tree_entries :: "staging \<Rightarrow> TreeEntry list" where
  "tree_entries staged_files = sort_key te_name (map tree_entry_of staged_files)"

definition tree_record :: "(json \<Rightarrow> string) \<Rightarrow> TreeEntry \<Rightarrow> string" where
  "tree_record R entry =
     fstr R (te_mode entry) @ '' '' @ te_name entry @ [NUL] @ fstr R (te_hash entry) @ [LF]"

definition tree_content :: "(json \<Rightarrow> string) \<Rightarrow> TreeEntry list \<Rightarrow> string" where
  "tree_content R entries = foldl (\<lambda>content entry. content @ tree_record R entry) [] entries"

definition create_tree ::
  "(string \<Rightarrow> string) \<Rightarrow> (json \<Rightarrow> string) \<Rightarrow> path \<Rightarrow> fs \<Rightarrow> staging \<Rightarrow> (pyerror + string) \<times> fs"
  where
  "create_tree H R repo_path fs staged_files =
     (case encode (tree_content R (tree_entries staged_files)) of
        Inl e \<Rightarrow> (Inl e, fs)
      | Inr data \<Rightarrow> store_object H repo_path fs data ''tree'')"

text \<open>
  Staged entries as \<open>add_file\<close> makes them, two of them with the same file name in different
  directories, and a rendering of the values that are not strings for running the model.
\<close>

definition entry_ax :: FileEntry where
  "entry_ax = \<lparr>fe_path = JStr ''a/x'', fe_hash = JStr ''h1'', fe_mode = JStr ''644'',
     fe_size = JInt 1, fe_mtime = JFloat (Float 0)\<rparr>"

definition entry_bx :: FileEntry where
  "entry_bx = \<lparr>fe_path = JStr ''b/x'', fe_hash = JStr ''h2'', fe_mode = JStr ''644'',
     fe_size = JInt 1, fe_mtime = JFloat (Float 0)\<rparr>"

definition sample_repr :: "json \<Rightarrow> string" where
  "sample_repr v = ''?''"

subsection \<open>Repository: init and checkout\<close>

definition pygit_path :: "path \<Rightarrow> path" where
  "pygit_path repo_path = pjoin repo_path PYGIT_DIR"

definition head_path :: "path \<Rightarrow> path" where
  "head_path repo_path = pjoin (pygit_path repo_path) HEAD_FILE"

definition branch_path :: "path \<Rightarrow> string \<Rightarrow> path" where
  "branch_path repo_path branch_name =
     pjoin (pjoin (pjoin (pygit_path repo_path) REFS_DIR) HEADS_DIR) branch_name"

definition is_repository :: "path \<Rightarrow> fs \<Rightarrow> bool" where
  "is_repository repo_path fs =
     (path_exists fs (pygit_path repo_path) \<and> is_dir fs (pygit_path repo_path))"

text \<open>The loop over \<^verbatim>\<open>dirs_to_create\<close>.\<close>

fun mkdir_all :: "fs \<Rightarrow> path list \<Rightarrow> (pyerror + unit) \<times> fs" where
  "mkdir_all fs [] = (Inr (), fs)"
| "mkdir_all fs (dir_path # dirs) =
     (case mkdir_parents fs dir_path of
        (Inl e, fs1) \<Rightarrow> (Inl e, fs1)
      | (Inr _, fs1) \<Rightarrow> mkdir_all fs1 dirs)"

abbreviation DQ :: char where "DQ \<equiv> CHR 0x22"
abbreviation SQ :: char where "SQ \<equiv> CHR 0x27"

text \<open>What \<^verbatim>\<open>json.dump(..., indent=2)\<close> writes for the initial configuration.\<close>

definition default_config_text :: string where
  "default_config_text =
     ''{'' @ [LF]
     @ ''  '' @ [DQ] @ ''user'' @ [DQ] @ '': {'' @ [LF]
     @ ''    '' @ [DQ] @ ''name'' @ [DQ] @ '': '' @ [DQ] @ ''PyGit User'' @ [DQ] @ '','' @ [LF]
     @ ''    '' @ [DQ] @ ''email'' @ [DQ] @ '': '' @ [DQ] @ ''user@pygit.local'' @ [DQ] @ [LF]
     @ ''  }'' @ [LF]
     @ ''}''"

definition init :: "path \<Rightarrow> fs \<Rightarrow> (pyerror + string) \<times> fs" where
  "init repo_path fs =
     (if is_repository repo_path fs
      then (Inr (''Repository already exists at '' @ path_str repo_path), fs)
      else
        (case mkdir_all fs
                [pygit_path repo_path,
                 pjoin (pygit_path repo_path) OBJECTS_DIR,
                 pjoin (pygit_path repo_path) REFS_DIR,
                 pjoin (pjoin (pygit_path repo_path) REFS_DIR) HEADS_DIR] of
           (Inl e, fs1) \<Rightarrow> (Inl e, fs1)
         | (Inr _, fs1) \<Rightarrow>
             (case write_text fs1 (head_path repo_path) (''ref: refs/heads/main'' @ [LF]) of
                (Inl e, fs2) \<Rightarrow> (Inl e, fs2)
              | (Inr _, fs2) \<Rightarrow>
                  (case write_text fs2 (pjoin (pygit_path repo_path) CONFIG_FILE)
                          default_config_text of
                     (Inl e, fs3) \<Rightarrow> (Inl e, fs3)
                   | (Inr _, fs3) \<Rightarrow>
                       (Inr (''Initialized empty PyGit repository in ''
                              @ path_str (pygit_path repo_path)), fs3)))))"

definition checkout :: "path \<Rightarrow> fs \<Rightarrow> string \<Rightarrow> (pyerror + string) \<times> fs" where
  "checkout repo_path fs branch_name =
     (if \<not> is_repository repo_path fs then (Inl (PyGitError ''Not a PyGit repository''), fs)
      else if \<not> path_exists fs (branch_path repo_path branch_name)
      then (Inl (PyGitError (''Branch '' @ branch_name @ '' does not exist'')), fs)
      else
        (case write_text fs (head_path repo_path) (''ref: refs/heads/'' @ branch_name @ [LF]) of
           (Inl e, fs1) \<Rightarrow> (Inl e, fs1)
         | (Inr _, fs1) \<Rightarrow> (Inr (''Switched to branch '' @ [SQ] @ branch_name @ [SQ]), fs1)))"

subsection \<open>Commits\<close>

text \<open>
  The fields that \<open>load_commit\<close> may leave at \<^verbatim>\<open>None\<close> are options. An f-string renders
  \<^verbatim>\<open>None\<close> as the text \<^verbatim>\<open>None\<close>; \<^verbatim>\<open>None\<close> and the empty string are false in a condition.
\<close>

record CommitObject =
  tree :: "string option"
  parent :: "string option"
  author :: "string option"
  committer :: "string option"
  timestamp :: "pyfloat option"
  message :: string
  co_hash :: "string option"

definition fmt_opt :: "string option \<Rightarrow> string" where
  "fmt_opt v = (case v of None \<Rightarrow> ''None'' | Some s \<Rightarrow> s)"

definition truthy :: "string option \<Rightarrow> bool" where
  "truthy v = (case v of None \<Rightarrow> False | Some s \<Rightarrow> s \<noteq> [])"

text \<open>\<^verbatim>\<open>int(commit.timestamp)\<close>.\<close>

definition timestamp_int :: "CommitObject \<Rightarrow> pyerror + int" where
  "timestamp_int commit = (case timestamp commit of None \<Rightarrow> Inl TypeError | Some t \<Rightarrow> py_int t)"

definition serialize_commit :: "CommitObject \<Rightarrow> pyerror + string" where
  "serialize_commit commit =
     (let content = ''tree '' @ fmt_opt (tree commit) @ [LF];
          content = (if truthy (parent commit)
                     then content @ ''parent '' @ fmt_opt (parent commit) @ [LF]
                     else content)
      in case timestamp_int commit of
           Inl e \<Rightarrow> Inl e
         | Inr secs \<Rightarrow>
             encode (content
                  @ ''author '' @ fmt_opt (author commit) @ '' '' @ str_int secs @ '' +0000'' @ [LF]
                  @ ''committer '' @ fmt_opt (committer commit) @ '' '' @ str_int secs
                  @ '' +0000'' @ [LF]
                  @ [LF] @ message commit @ [LF]))"

text \<open>
  The local variables of \<open>load_commit\<close>, and one turn of its loop over the lines. \<open>F\<close> stands
  for \<^verbatim>\<open>float\<close> applied to a string. The slices \<^verbatim>\<open>line[5:]\<close>, \<^verbatim>\<open>line[7:]\<close> and \<^verbatim>\<open>line[10:]\<close>
  follow a test for an ASCII prefix of that length, so they drop that many bytes.
\<close>

record parse_state =
  ps_tree :: "string option"
  ps_parent :: "string option"
  ps_author :: "string option"
  ps_committer :: "string option"
  ps_timestamp :: "pyfloat option"
  ps_message_lines :: "string list"
  ps_in_message :: bool

definition parse_init :: parse_state where
  "parse_init = \<lparr>ps_tree = None, ps_parent = None, ps_author = None, ps_committer = None,
     ps_timestamp = None, ps_message_lines = [], ps_in_message = False\<rparr>"

definition parse_line ::
  "(string \<Rightarrow> pyerror + pyfloat) \<Rightarrow> parse_state \<Rightarrow> string \<Rightarrow> pyerror + parse_state" where
  "parse_line F st line =
     (if \<not> ps_in_message st then
        if startswith line ''tree '' then Inr (st\<lparr>ps_tree := Some (drop 5 line)\<rparr>)
        else if startswith line ''parent '' then Inr (st\<lparr>ps_parent := Some (drop 7 line)\<rparr>)
        else if startswith line ''author '' then
          (case rsplit SP 2 (drop 7 line) of
             p0 # p1 # _ \<Rightarrow>
               (case F p1 of
                  Inl e \<Rightarrow> Inl e
                | Inr t \<Rightarrow> Inr (st\<lparr>ps_author := Some p0, ps_timestamp := Some t\<rparr>))
           | _ \<Rightarrow> Inl IndexError)
        else if startswith line ''committer '' then
          (case rsplit SP 2 (drop 10 line) of
             p0 # _ \<Rightarrow> Inr (st\<lparr>ps_committer := Some p0\<rparr>)
           | [] \<Rightarrow> Inl IndexError)
        else if line = [] then Inr (st\<lparr>ps_in_message := True\<rparr>)
        else Inr st
      else Inr (st\<lparr>ps_message_lines := ps_message_lines st @ [line]\<rparr>))"

fun parse_lines ::
  "(string \<Rightarrow> pyerror + pyfloat) \<Rightarrow> parse_state \<Rightarrow> string list \<Rightarrow> pyerror + parse_state" where
  "parse_lines F st [] = Inr st"
| "parse_lines F st (line # lines) =
     (case parse_line F st line of Inl e \<Rightarrow> Inl e | Inr st1 \<Rightarrow> parse_lines F st1 lines)"

definition load_commit ::
  "(string \<Rightarrow> pyerror + pyfloat) \<Rightarrow> path \<Rightarrow> fs \<Rightarrow> string \<Rightarrow> pyerror + CommitObject" where
  "load_commit F repo_path fs hash_str =
     (case get_object repo_path fs hash_str of
        Inl e \<Rightarrow> Inl e
      | Inr (obj_type, content) \<Rightarrow>
          if obj_type \<noteq> ''commit''
          then Inl (PyGitError (''Object '' @ hash_str @ '' is not a commit''))
          else
            (case decode content of
               Inl e \<Rightarrow> Inl e
             | Inr text \<Rightarrow>
                 (case parse_lines F parse_init (split_on LF text) of
                    Inl e \<Rightarrow> Inl e
                  | Inr st \<Rightarrow>
                      Inr \<lparr>tree = ps_tree st, parent = ps_parent st, author = ps_author st,
                           committer = ps_committer st, timestamp = ps_timestamp st,
                           message = strip (join [LF] (ps_message_lines st)),
                           co_hash = Some hash_str\<rparr>)))"

subsection \<open>Repository: HEAD and log\<close>

definition get_head_commit :: "path \<Rightarrow> fs \<Rightarrow> pyerror + string option" where
  "get_head_commit repo_path fs =
     (if \<not> path_exists fs (head_path repo_path) then Inr None
      else
        (case read_text fs (head_path repo_path) of
           Inl e \<Rightarrow> Inl e
         | Inr text \<Rightarrow>
             (let content = strip text
              in if startswith content ''ref: refs/heads/'' then
                   (let branch_name = drop 16 content
                    in if \<not> path_exists fs (branch_path repo_path branch_name) then Inr None
                       else
                         (case read_text fs (branch_path repo_path branch_name) of
                            Inl e \<Rightarrow> Inl e
                          | Inr ref \<Rightarrow> Inr (Some (strip ref))))
                 else Inr (Some content))))"

text \<open>
  One entry of the log. \<open>D\<close> stands for
  \<^verbatim>\<open>datetime.fromtimestamp(t).strftime('%Y-%m-%d %H:%M:%S')\<close>, which depends on the time zone
  and raises for a timestamp out of range.
\<close>

definition log_entry ::
  "(pyfloat \<Rightarrow> pyerror + string) \<Rightarrow> string \<Rightarrow> CommitObject \<Rightarrow> pyerror + string" where
  "log_entry D hash_str commit =
     (case (case timestamp commit of None \<Rightarrow> Inl TypeError | Some t \<Rightarrow> D t) of
        Inl e \<Rightarrow> Inl e
      | Inr date \<Rightarrow>
          Inr (''commit '' @ hash_str @ [LF]
               @ ''Author: '' @ fmt_opt (author commit) @ [LF]
               @ ''Date: '' @ date @ [LF, LF]
               @ ''    '' @ message commit @ [LF]))"

text \<open>The \<^verbatim>\<open>while commit_hash and count < limit\<close> loop; \<open>cnt\<close> is \<^verbatim>\<open>count\<close>.\<close>

function log_loop ::
  "(string \<Rightarrow> pyerror + pyfloat) \<Rightarrow> (pyfloat \<Rightarrow> pyerror + string) \<Rightarrow> path \<Rightarrow> fs
     \<Rightarrow> string option \<Rightarrow> int \<Rightarrow> int \<Rightarrow> string list \<Rightarrow> pyerror + string list" where
  "log_loop F D repo_path fs commit_hash cnt limit logs =
     (case commit_hash of
        None \<Rightarrow> Inr logs
      | Some h \<Rightarrow>
          if h \<noteq> [] \<and> cnt < limit then
            (case load_commit F repo_path fs h of
               Inl e \<Rightarrow> Inl e
             | Inr commit \<Rightarrow>
                 (case log_entry D h commit of
                    Inl e \<Rightarrow> Inl e
                  | Inr entry \<Rightarrow>
                      log_loop F D repo_path fs (parent commit) (cnt + 1) limit
                        (logs @ [entry])))
          else Inr logs)"
  by pat_completeness auto
termination
  by (relation "measure (\<lambda>(F, D, repo_path, fs, commit_hash, cnt, limit, logs).
        nat (limit - cnt))") auto

declare log_loop.simps [simp del]

definition repo_log ::
  "(string \<Rightarrow> pyerror + pyfloat) \<Rightarrow> (pyfloat \<Rightarrow> pyerror + string) \<Rightarrow> path \<Rightarrow> fs \<Rightarrow> int
     \<Rightarrow> pyerror + string" where
  "repo_log F D repo_path fs limit =
     (if \<not> is_repository repo_path fs then Inl (PyGitError ''Not a PyGit repository'')
      else
        (case get_head_commit repo_path fs of
           Inl e \<Rightarrow> Inl e
         | Inr commit_hash \<Rightarrow>
             if \<not> truthy commit_hash then Inr ''No commits yet''
             else
               (case log_loop F D repo_path fs commit_hash 0 limit [] of
                  Inl e \<Rightarrow> Inl e
                | Inr logs \<Rightarrow> Inr (join [LF] logs))))"

text \<open>
  The parent chain that starts at the commit \<open>h\<close>: the hashes and commits that following
  \<open>parent\<close> visits, down to the first commit that has no parent to follow.
\<close>

fun parent_chain ::
  "(string \<Rightarrow> pyerror + pyfloat) \<Rightarrow> path \<Rightarrow> fs \<Rightarrow> string \<Rightarrow> (string \<times> CommitObject) list \<Rightarrow> bool"
  where
  "parent_chain F repo_path fs h [] = False"
| "parent_chain F repo_path fs h ((x, c) # rest) =
     (x = h \<and> h \<noteq> [] \<and> load_commit F repo_path fs h = Inr c \<and>
      (case rest of
         [] \<Rightarrow> \<not> truthy (parent c)
       | (y, _) # _ \<Rightarrow> parent c = Some y \<and> parent_chain F repo_path fs y rest))"

text \<open>
  Stand-ins for running the model: \<open>float_literal\<close> is \<^verbatim>\<open>float\<close> on the decimal integers,
  which is all that \<open>serialize_commit\<close> writes (Python accepts more texts than these);
  \<open>sample_date\<close> prints the whole seconds instead of a calendar date.
\<close>

fun digits_value :: "string \<Rightarrow> nat \<Rightarrow> nat option" where
  "digits_value [] acc = Some acc"
| "digits_value (c # s) acc =
     (if 48 \<le> byte c \<and> byte c \<le> 57 then digits_value s (10 * acc + (byte c - 48)) else None)"

definition float_literal :: "string \<Rightarrow> pyerror + pyfloat" where
  "float_literal s =
     (case s of
        [] \<Rightarrow> Inl ValueError
      | c # r \<Rightarrow>
          if c = CHR ''-'' then
            (case (if r = [] then None else digits_value r 0) of
               None \<Rightarrow> Inl ValueError
             | Some n \<Rightarrow> Inr (Float (- of_nat n)))
          else
            (case digits_value s 0 of
               None \<Rightarrow> Inl ValueError
             | Some n \<Rightarrow> Inr (Float (of_nat n))))"

definition sample_date :: "pyfloat \<Rightarrow> pyerror + string" where
  "sample_date t = (case py_int t of Inl e \<Rightarrow> Inl e | Inr secs \<Rightarrow> Inr (str_int secs))"

text \<open>
  A repository with a working file, a branch \<^verbatim>\<open>dev\<close> and a branch whose name is the single
  byte 0xE9, which is not text: as a \<^verbatim>\<open>str\<close> it is a lone surrogate.
\<close>

definition demo_repo_fs :: fs where
  "demo_repo_fs =
     [[''repo''] \<mapsto> Dir,
      [''repo'', ''a.txt''] \<mapsto> File ''hello'',
      [''repo'', ''.pygit''] \<mapsto> Dir,
      [''repo'', ''.pygit'', ''HEAD''] \<mapsto> File (''ref: refs/heads/main'' @ [LF]),
      [''repo'', ''.pygit'', ''refs''] \<mapsto> Dir,
      [''repo'', ''.pygit'', ''refs'', ''heads''] \<mapsto> Dir,
      [''repo'', ''.pygit'', ''refs'', ''heads'', ''dev''] \<mapsto> File (''5a77'' @ [LF]),
      [''repo'', ''.pygit'', ''refs'', ''heads'', [CHR 0xE9]] \<mapsto> File (''5a77'' @ [LF])]"

subsection \<open>Sample commits\<close>

text \<open>
  Commits for running \<open>serialize_commit\<close> and \<open>load_commit\<close>: one with a parent and a
  timestamp of one and a half seconds, one whose parent is the empty string, and one whose tree
  holds a newline.
\<close>

definition demo_commit :: CommitObject where
  "demo_commit = \<lparr>tree = Some ''5a34'', parent = Some ''5a90'',
     author = Some ''Ann <ann@example.org>'', committer = Some ''Ann <ann@example.org>'',
     timestamp = Some (Float (3 / 2)), message = ''first'', co_hash = None\<rparr>"

definition commit_empty_parent :: CommitObject where
  "commit_empty_parent = \<lparr>tree = Some ''5a34'', parent = Some [],
     author = Some ''Ann <ann@example.org>'', committer = Some ''Ann <ann@example.org>'',
     timestamp = Some (Float 1), message = ''first'', co_hash = None\<rparr>"

definition commit_newline_tree :: CommitObject where
  "commit_newline_tree = \<lparr>tree = Some (''5a34'' @ [LF] @ ''parent 5a90''), parent = None,
     author = Some ''Ann <ann@example.org>'', committer = Some ''Ann <ann@example.org>'',
     timestamp = Some (Float 1), message = ''first'', co_hash = None\<rparr>"

text \<open>
  A repository with two commits: \<^verbatim>\<open>5a02\<close>, to which the branch \<^verbatim>\<open>main\<close> points, and its
  parent \<^verbatim>\<open>5a01\<close>, which has no parent.
\<close>

definition demo_log_fs :: fs where
  "demo_log_fs =
     [[''repo''] \<mapsto> Dir,
      [''repo'', ''.pygit''] \<mapsto> Dir,
      [''repo'', ''.pygit'', ''HEAD''] \<mapsto> File (''ref: refs/heads/main'' @ [LF]),
      [''repo'', ''.pygit'', ''refs''] \<mapsto> Dir,
      [''repo'', ''.pygit'', ''refs'', ''heads''] \<mapsto> Dir,
      [''repo'', ''.pygit'', ''refs'', ''heads'', ''main''] \<mapsto> File (''5a02'' @ [LF]),
      [''repo'', ''.pygit'', ''objects''] \<mapsto> Dir,
      [''repo'', ''.pygit'', ''objects'', ''5a''] \<mapsto> Dir,
      [''repo'', ''.pygit'', ''objects'', ''5a'', ''01''] \<mapsto>
         File (''commit 98'' @ [NUL] @ ''tree 5a34'' @ [LF] @ ''author Ann <ann@example.org> 100 +0000'' @ [LF] @ ''committer Ann <ann@example.org> 100 +0000'' @ [LF] @ [LF] @ ''first'' @ [LF]),
      [''repo'', ''.pygit'', ''objects'', ''5a'', ''02''] \<mapsto>
         File (''commit 111'' @ [NUL] @ ''tree 5a35'' @ [LF] @ ''parent 5a01'' @ [LF] @ ''author Ann <ann@example.org> 200 +0000'' @ [LF] @ ''committer Ann <ann@example.org> 200 +0000'' @ [LF] @ [LF] @ ''second'' @ [LF])]"

definition demo_first :: CommitObject where
  "demo_first = \<lparr>tree = Some ''5a34'', parent = None,
     author = Some ''Ann <ann@example.org>'', committer = Some ''Ann <ann@example.org>'',
     timestamp = Some (Float 100), message = ''first'', co_hash = Some ''5a01''\<rparr>"

definition demo_second :: CommitObject where
  "demo_second = \<lparr>tree = Some ''5a35'', parent = Some ''5a01'',
     author = Some ''Ann <ann@example.org>'', committer = Some ''Ann <ann@example.org>'',
     timestamp = Some (Float 200), message = ''second'', co_hash = Some ''5a02''\<rparr>"


section \<open>Properties of the object store\<close>

subsection \<open>File system and text lemmas\<close>

lemma stat_upd: "stat (fs(p \<mapsto> n)) q = (if q = [] then Some Dir else if q = p then Some n else fs q)"
  by (simp add: stat_def)

lemma os_mkdir_ok: "os_mkdir fs p = Inr fs1 \<Longrightarrow> fs1 = fs(p \<mapsto> Dir) \<and> p \<noteq> []"
  by (auto simp: os_mkdir_def stat_def split: option.splits node.splits if_splits)

lemma mkdir_exist_ok_is_dir: "mkdir_exist_ok fs p = (Inr u, fs1) \<Longrightarrow> is_dir fs1 p"
  by (auto simp: mkdir_exist_ok_def is_dir_def stat_def dest!: os_mkdir_ok split: sum.splits if_splits)

lemma mkdir_parents_is_dir: "mkdir_parents fs p = (Inr u, fs1) \<Longrightarrow> is_dir fs1 p"
  apply (subst (asm) mkdir_parents.simps)
  apply (auto simp: is_dir_def stat_def dest!: os_mkdir_ok mkdir_exist_ok_is_dir split: sum.splits if_splits prod.splits)
  done

lemma mkdir_parents_existing: "is_dir fs p \<Longrightarrow> mkdir_parents fs p = (Inr (), fs)"
  by (subst mkdir_parents.simps) (auto simp: os_mkdir_def is_dir_def split: option.splits)

lemma write_file_ok:
  "write_file fs p d = Inr fs1 \<Longrightarrow> fs1 = fs(p \<mapsto> File d) \<and> p \<noteq> [] \<and> is_dir fs (parent_dir p)"
  by (auto simp: write_file_def stat_def is_dir_def split: option.splits node.splits if_splits)

lemma butlast_neq: "p \<noteq> [] \<Longrightarrow> butlast p \<noteq> p"
  by (metis length_butlast diff_less length_greater_0_conv less_irrefl zero_less_one)

lemma encode_Inr: "encode text = Inr data \<longleftrightarrow> utf8_valid text \<and> data = text"
  by (auto simp: encode_def)

lemma store_object_ok:
  assumes "store_object H repo_path fs content T = (Inr h, fs')"
  shows "h = H (object_header T content @ content)"
    and "stat fs' (get_object_path repo_path h) = Some (File (object_header T content @ content))"
    and "is_dir fs' (parent_dir (get_object_path repo_path h))"
    and "get_object_path repo_path h \<noteq> []"
    and "encode (object_header T content) = Inr (object_header T content)"
proof -
  let ?full = "object_header T content @ content"
  let ?p = "get_object_path repo_path (H ?full)"
  from assms obtain u fs1 where
    en: "encode (object_header T content) = Inr (object_header T content)" and
    mk: "mkdir_parents fs (parent_dir ?p) = (Inr u, fs1)" and
    wr: "write_file fs1 ?p ?full = Inr fs'" and
    h: "h = H ?full"
    by (auto simp: store_object_def Let_def encode_Inr split: prod.splits sum.splits)
  show "encode (object_header T content) = Inr (object_header T content)" by (rule en)
  from write_file_ok [OF wr] have fs': "fs' = fs1(?p \<mapsto> File ?full)" and ne: "?p \<noteq> []"
    and d: "is_dir fs1 (parent_dir ?p)" by auto
  show "h = H ?full" by (rule h)
  show "stat fs' (get_object_path repo_path h) = Some (File ?full)"
    using ne by (simp add: h fs' stat_def)
  show "is_dir fs' (parent_dir (get_object_path repo_path h))"
    using d ne butlast_neq [OF ne] by (auto simp: h fs' is_dir_def stat_def parent_dir_def)
  show "get_object_path repo_path h \<noteq> []" using ne by (simp add: h)
qed


lemma byte_digit_char: "d < 10 \<Longrightarrow> byte (digit_char d) = 48 + d"
  by (simp add: byte_def digit_char_def)

lemma str_nat_digits: "c \<in> set (str_nat n) \<Longrightarrow> 48 \<le> byte c \<and> byte c \<le> 57"
proof (induction n rule: str_nat.induct)
  case (1 n)
  show ?case
  proof (cases "n < 10")
    case True
    with 1 show ?thesis by (subst (asm) (2) str_nat.simps) (simp add: byte_digit_char)
  next
    case False
    from "1.prems" have "c \<in> set (str_nat (n div 10)) \<or> c = digit_char (n mod 10)"
      by (subst (asm) str_nat.simps) (auto simp add: False)
    then show ?thesis
    proof
      assume "c \<in> set (str_nat (n div 10))"
      with 1 False show ?thesis by simp
    next
      assume "c = digit_char (n mod 10)"
      then show ?thesis by (simp add: byte_digit_char)
    qed
  qed
qed

lemma utf8_valid_ascii: "\<forall>c\<in>set s. byte c < 0x80 \<Longrightarrow> utf8_valid s"
  by (induction s) auto

lemma token_plain: "\<forall>c\<in>set t. plain c \<Longrightarrow> token (t @ SP # r) = t"
  by (induction t) (auto simp: plain_def ascii_space_def byte_def)

lemma lstrip_plain: "plain c \<Longrightarrow> lstrip (c # s) = c # s"
  by (subst lstrip.simps) (simp add: plain_def)

lemma split_ws_plain:
  assumes "t \<noteq> []" "\<forall>c\<in>set t. plain c"
  shows "\<exists>ws. split_ws (t @ SP # r) = t # ws"
proof -
  from assms obtain c t' where t: "t = c # t'" and c: "plain c" by (cases t) auto
  have "lstrip (t @ SP # r) = t @ SP # r" using lstrip_plain [OF c] by (simp add: t)
  then show ?thesis
    using token_plain [OF assms(2), of r] assms(1)
    by (subst split_ws.simps) (simp add: Let_def)
qed

lemma str_nat_ascii: "c \<in> set (str_nat n) \<Longrightarrow> byte c < 0x80"
  using str_nat_digits [of c n] by simp

lemma str_nat_no_NUL: "NUL \<notin> set (str_nat n)"
proof
  assume "NUL \<in> set (str_nat n)"
  from str_nat_digits [OF this] show False by (simp add: byte_def)
qed

lemma plain_no_NUL: "\<forall>c\<in>set t. plain c \<Longrightarrow> NUL \<notin> set t"
  by (auto simp: plain_def)

lemma get_after_store:
  assumes st: "store_object H repo_path fs content T = (Inr h, fs')"
    and T: "T \<noteq> []" "\<forall>c\<in>set T. plain c"
  shows "get_object repo_path fs' h = Inr (T, content)"
proof -
  define hd where "hd = T @ SP # str_nat (length content)"
  have hdr: "object_header T content @ content = hd @ NUL # content"
    by (simp add: object_header_def hd_def)
  have nonul: "NUL \<notin> set hd"
    using plain_no_NUL [OF T(2)] str_nat_no_NUL by (simp add: hd_def)
  then have P: "\<forall>c\<in>set hd. c \<noteq> NUL" by blast
  have tk: "takeWhile (\<lambda>c. c \<noteq> NUL) (hd @ NUL # content) = hd"
    using P by simp
  have dr: "dropWhile (\<lambda>c. c \<noteq> NUL) (hd @ NUL # content) = NUL # content"
    using P by simp
  have "\<forall>c\<in>set hd. byte c < 0x80"
    using T(2) str_nat_ascii by (auto simp: plain_def hd_def byte_def)
  then have val: "utf8_valid hd" by (rule utf8_valid_ascii)
  obtain ws where sp: "split_ws hd = T # ws"
    using split_ws_plain [OF T] unfolding hd_def by blast
  from store_object_ok [OF st]
  have f: "stat fs' (get_object_path repo_path h) = Some (File (hd @ NUL # content))"
    by (simp only: hdr)
  have rd: "read_file fs' (get_object_path repo_path h) = Inr (hd @ NUL # content)"
    by (simp add: read_file_def f)
  have ex: "path_exists fs' (get_object_path repo_path h)"
    by (simp add: path_exists_def f)
  have inn: "NUL \<in> set (hd @ NUL # content)" by simp
  show ?thesis
    unfolding get_object_def Let_def
    by (simp only: ex rd tk dr sp decode_def val inn if_True if_False sum.case list.case
        list.sel simp_thms)
qed

lemma str_nat_value: "foldl (\<lambda>a c. 10 * a + (byte c - 48)) 0 (str_nat n) = n"
proof (induction n rule: str_nat.induct)
  case (1 n)
  show ?case
  proof (cases "n < 10")
    case True
    then show ?thesis by (subst str_nat.simps) (simp add: byte_digit_char)
  next
    case False
    with 1 show ?thesis by (subst str_nat.simps) (simp add: byte_digit_char)
  qed
qed

lemma demo_store_hello:
  "fst (store_object sample_digest demo_root Map.empty ''hello'' ''blob'') = Inr ''5a12''"
  by code_simp

lemma demo_store_nul:
  "fst (store_object sample_digest demo_root Map.empty (''he'' @ [NUL] @ ''llo'') ''blob'')
     = Inr ''5a13''"
  by code_simp

subsection \<open>The claims on the object store\<close>

text \<open>
  C1. Whenever \<open>store_object\<close> returns a hash, that hash is the digest of the header
  \<^verbatim>\<open><type> <len>\0\<close> followed by the content, \<^verbatim>\<open><len>\<close> being the decimal length of the
  content in bytes; for the blob \<^verbatim>\<open>hello\<close> the digested bytes are \<^verbatim>\<open>blob 5\0hello\<close>.
\<close>

theorem store_object_hash:
  assumes "store_object H repo_path fs content obj_type = (Inr h, fs')"
  shows "h = H (obj_type @ '' '' @ str_nat (length content) @ [NUL] @ content)
    \<and> (obj_type = ''blob'' \<and> content = ''hello'' \<longrightarrow> h = H (''blob 5'' @ [NUL] @ ''hello''))"
proof -
  have h: "h = H (obj_type @ '' '' @ str_nat (length content) @ [NUL] @ content)"
    using store_object_ok(1) [OF assms] by (simp add: object_header_def)
  have "str_nat (length ''hello'') = ''5''" by code_simp
  with h show ?thesis by simp
qed

theorem store_object_hash_witness:
  "store_object sample_digest demo_root Map.empty ''hello'' ''blob''
     = (Inr ''5a12'', snd (store_object sample_digest demo_root Map.empty ''hello'' ''blob''))
   \<and> ''5a12'' = sample_digest (''blob 5'' @ [NUL] @ ''hello'')"
proof -
  have e: "store_object sample_digest demo_root Map.empty ''hello'' ''blob''
     = (Inr ''5a12'', snd (store_object sample_digest demo_root Map.empty ''hello'' ''blob''))"
    using demo_store_hello by (metis prod.collapse)
  have "''5a12'' = sample_digest (''blob 5'' @ [NUL] @ ''hello'')"
    using store_object_hash [OF e, THEN conjunct2] by simp
  with e show ?thesis by (rule conjI)
qed

text \<open>
  C2. For each of the type tags \<^verbatim>\<open>blob\<close>, \<^verbatim>\<open>tree\<close> and \<^verbatim>\<open>commit\<close> and every content, NUL
  bytes in it included, \<open>get_object\<close> on the hash that \<open>store_object\<close> returned gives back
  exactly the tag and the content.
\<close>

theorem get_object_store_object:
  assumes "obj_type \<in> {''blob'', ''tree'', ''commit''}"
    and "store_object H repo_path fs content obj_type = (Inr h, fs')"
  shows "get_object repo_path fs' h = Inr (obj_type, content)"
proof (rule get_after_store [OF assms(2)])
  show "obj_type \<noteq> []" using assms(1) by auto
  show "\<forall>c\<in>set obj_type. plain c"
    using assms(1) by (auto simp: plain_def ascii_space_def byte_def)
qed

theorem get_object_store_object_witness:
  "''blob'' \<in> {''blob'', ''tree'', ''commit''}
   \<and> get_object demo_root
        (snd (store_object sample_digest demo_root Map.empty (''he'' @ [NUL] @ ''llo'') ''blob''))
        ''5a13''
      = Inr (''blob'', ''he'' @ [NUL] @ ''llo'')"
proof -
  have t: "''blob'' \<in> {''blob'', ''tree'', ''commit''}" by simp
  have e: "store_object sample_digest demo_root Map.empty (''he'' @ [NUL] @ ''llo'') ''blob''
     = (Inr ''5a13'',
        snd (store_object sample_digest demo_root Map.empty (''he'' @ [NUL] @ ''llo'') ''blob''))"
    using demo_store_nul by (metis prod.collapse)
  from get_object_store_object [OF t e] t show ?thesis by simp
qed

text \<open>
  C5. When \<open>store_object\<close> has stored a content, storing the same content under the same
  type again returns the same hash without an error and leaves the file system as the
  first call left it: the object file at the sharded path of the hash holds the same bytes.
\<close>

theorem store_object_idempotent:
  assumes "store_object H repo_path fs content obj_type = (Inr h, fs')"
  shows "store_object H repo_path fs' content obj_type = (Inr h, fs')
    \<and> fs' (get_object_path repo_path h) = Some (File (object_header obj_type content @ content))"
proof -
  let ?full = "object_header obj_type content @ content"
  let ?p = "get_object_path repo_path (H ?full)"
  note ok = store_object_ok [OF assms]
  have h: "h = H ?full" by (rule ok(1))
  have mk: "mkdir_parents fs' (parent_dir ?p) = (Inr (), fs')"
    using ok(3) by (simp add: h mkdir_parents_existing)
  have at: "fs' ?p = Some (File ?full)" using ok(2,4) by (simp add: h stat_def)
  then have up: "fs'(?p \<mapsto> File ?full) = fs'" by (rule map_upd_triv)
  have wr: "write_file fs' ?p ?full = Inr fs'"
    using ok(2,3) up by (simp add: write_file_def h is_dir_def)
  have "store_object H repo_path fs' content obj_type = (Inr h, fs')"
    by (simp add: store_object_def Let_def ok(5) mk wr h)
  with at show ?thesis by (simp add: h)
qed

theorem store_object_idempotent_witness:
  "store_object sample_digest demo_root
      (snd (store_object sample_digest demo_root Map.empty ''hello'' ''blob'')) ''hello'' ''blob''
     = (Inr ''5a12'', snd (store_object sample_digest demo_root Map.empty ''hello'' ''blob''))"
proof -
  have e: "store_object sample_digest demo_root Map.empty ''hello'' ''blob''
     = (Inr ''5a12'', snd (store_object sample_digest demo_root Map.empty ''hello'' ''blob''))"
    using demo_store_hello by (metis prod.collapse)
  from store_object_idempotent [OF e] show ?thesis by simp
qed

subsection \<open>Lemmas on the tree builder\<close>

lemma tree_content_concat: "tree_content R es = concat (map (tree_record R) es)"
proof -
  have "foldl (\<lambda>content entry. content @ tree_record R entry) a es
      = a @ concat (map (tree_record R) es)" for a
    by (induction es arbitrary: a) auto
  then show ?thesis by (simp add: tree_content_def)
qed

lemma insort_key_map:
  "insort_key f (g x) (map g xs) = map g (insort_key (\<lambda>y. f (g y)) x xs)"
  by (induction xs) auto

lemma sort_key_map: "sort_key f (map g xs) = map g (sort_key (\<lambda>y. f (g y)) xs)"
  by (induction xs) (auto simp: insort_key_map)

lemma te_name_tree_entry_of: "te_name (tree_entry_of item) = basename (fst item)"
  by (cases item) (simp add: tree_entry_of_def)

lemma tree_entries_items:
  "tree_entries staged = map tree_entry_of (sort_key (\<lambda>item. basename (fst item)) staged)"
  by (simp add: tree_entries_def sort_key_map te_name_tree_entry_of)

lemma tree_record_item:
  "tree_record R (tree_entry_of item)
     = fstr R (fe_mode (snd item)) @ '' '' @ basename (fst item) @ [NUL]
       @ fstr R (fe_hash (snd item)) @ [LF]"
  by (cases item) (simp add: tree_record_def tree_entry_of_def)

lemma tree_serialized:
  "tree_content R (tree_entries staged)
     = concat (map (\<lambda>item. fstr R (fe_mode (snd item)) @ '' '' @ basename (fst item) @ [NUL]
                      @ fstr R (fe_hash (snd item)) @ [LF])
                (sort_key (\<lambda>item. basename (fst item)) staged))"
  by (simp add: tree_content_concat tree_entries_items tree_record_item comp_def)

lemma tree_names_sort:
  "map te_name (tree_entries staged) = sort (map (\<lambda>item. basename (fst item)) staged)"
proof -
  have m: "mset (map te_name (tree_entries staged))
      = mset (map (\<lambda>item. basename (fst item)) staged)"
    by (simp add: tree_entries_items te_name_tree_entry_of comp_def)
  have s: "sorted (map te_name (tree_entries staged))"
    by (simp add: tree_entries_def)
  show ?thesis by (rule sym) (rule properties_for_sort [OF m s])
qed

lemma names_of_permutation:
  assumes "mset staged' = mset staged"
  shows "map (\<lambda>item. basename (fst item)) (sort_key (\<lambda>item. basename (fst item)) staged')
     = map (\<lambda>item. basename (fst item)) (sort_key (\<lambda>item. basename (fst item)) staged)"
proof -
  let ?g = "\<lambda>item :: string \<times> 'a. basename (fst item)"
  have k: "map ?g (sort_key ?g xs) = sort (map ?g xs)" for xs
    by (rule sym) (rule properties_for_sort, simp_all)
  from assms have "mset (map ?g staged') = mset (map ?g staged)"
    by simp
  then have e: "sort (map ?g staged') = sort (map ?g staged)"
    by (metis properties_for_sort sorted_sort mset_sort)
  have "map ?g (sort_key ?g staged') = sort (map ?g staged')" by (rule k)
  also have "\<dots> = sort (map ?g staged)" by (rule e)
  also have "\<dots> = map ?g (sort_key ?g staged)" by (rule k [symmetric])
  finally show ?thesis .
qed

lemma basename_join:
  assumes "CHR ''/'' \<notin> set name"
  shows "basename (dir @ ''/'' @ name) = name"
proof -
  have "takeWhile (\<lambda>c. c \<noteq> CHR ''/'') (rev name @ CHR ''/'' # rev dir)
      = rev name @ takeWhile (\<lambda>c. c \<noteq> CHR ''/'') (CHR ''/'' # rev dir)"
    using assms by (intro takeWhile_append2) auto
  then show ?thesis by (simp add: basename_def)
qed

lemma basename_plain:
  assumes "CHR ''/'' \<notin> set name"
  shows "basename name = name"
proof -
  have "takeWhile (\<lambda>c. c \<noteq> CHR ''/'') (rev name) = rev name"
    using assms by (intro takeWhile_eq_all_conv [THEN iffD2]) auto
  then show ?thesis by (simp only: basename_def rev_rev_ident)
qed

lemma create_tree_ok:
  assumes "create_tree H R repo_path fs staged = (Inr h, fs')"
  shows "h = H (''tree '' @ str_nat (length (tree_content R (tree_entries staged))) @ [NUL]
               @ tree_content R (tree_entries staged))"
    and "get_object repo_path fs' h = Inr (''tree'', tree_content R (tree_entries staged))"
proof -
  let ?c = "tree_content R (tree_entries staged)"
  from assms have st: "store_object H repo_path fs ?c ''tree'' = (Inr h, fs')"
    by (auto simp: create_tree_def encode_Inr split: sum.splits)
  show "h = H (''tree '' @ str_nat (length ?c) @ [NUL] @ ?c)"
    using store_object_ok(1) [OF st] by (simp add: object_header_def)
  show "get_object repo_path fs' h = Inr (''tree'', ?c)"
    by (rule get_after_store [OF st]) (auto simp: plain_def ascii_space_def byte_def)
qed

lemma demo_create_tree:
  "fst (create_tree sample_digest sample_repr demo_root Map.empty
          [(''b.txt'', entry_bx), (''dir/a.txt'', entry_ax)]) = Inr ''5a34''"
  by code_simp

lemma Index_load_json_array:
  assumes "path_exists fs (index_path repo_path)"
    and "read_text fs (index_path repo_path) = Inr text"
    and "J text = Inr (JArr [])"
  shows "Index_load J repo_path fs entries = Inl AttributeError"
  using assms by (simp add: Index_load_def load_body_def load_except_def entries_of_data_def)

lemma Index_load_missing_key:
  assumes "path_exists fs (index_path repo_path)"
    and "read_text fs (index_path repo_path) = Inr text"
    and "J text = Inr (JObj [(''a.txt'', JObj [(''path'', JStr ''a.txt'')])])"
  shows "Index_load J repo_path fs entries = Inl TypeError"
  using assms
  by (simp add: Index_load_def load_body_def load_except_def entries_of_data_def
      FileEntry_kwargs_def)

subsection \<open>The claims on the tree builder and the index\<close>

text \<open>
  C6. When the tree builder returns a hash, the object stored under it is a \<^verbatim>\<open>tree\<close> object
  whose content is the concatenation of one record per staged entry, in the order that a
  stable sort by the last segment of the staged path gives. The record of a staged entry is
  its mode, a space, the last segment of its path, NUL, its hash and a newline. The names are
  ascending and the list of names is the same however the entries were ordered when staged.
  The last segment is what follows the last slash, the whole path when it has no slash.
\<close>

theorem create_tree_sorted_records:
  assumes "create_tree H R repo_path fs staged = (Inr h, fs')"
  shows
    "let items = sort_key (\<lambda>item. basename (fst item)) staged;
         content = concat (map (\<lambda>item. fstr R (fe_mode (snd item)) @ '' ''
                                   @ basename (fst item) @ [NUL]
                                   @ fstr R (fe_hash (snd item)) @ [LF]) items)
     in mset items = mset staged
        \<and> length items = length staged
        \<and> sorted (map (\<lambda>item. basename (fst item)) items)
        \<and> (\<forall>k. filter (\<lambda>item. basename (fst item) = k) items
                 = filter (\<lambda>item. basename (fst item) = k) staged)
        \<and> h = H (''tree '' @ str_nat (length content) @ [NUL] @ content)
        \<and> get_object repo_path fs' h = Inr (''tree'', content)
        \<and> (mset staged' = mset staged
             \<longrightarrow> map (\<lambda>item. basename (fst item))
                    (sort_key (\<lambda>item. basename (fst item)) staged')
                 = map (\<lambda>item. basename (fst item)) items)
        \<and> fstr R (JStr s) = s
        \<and> (CHR ''/'' \<notin> set name
             \<longrightarrow> basename (dir @ ''/'' @ name) = name \<and> basename name = name)"
proof -
  have stable: "filter (\<lambda>item. basename (fst item) = k)
        (sort_key (\<lambda>item. basename (fst item)) staged)
      = filter (\<lambda>item. basename (fst item) = k) staged" for k
    by (rule sort_key_stable)
  note ok = create_tree_ok [OF assms, unfolded tree_serialized]
  show ?thesis
    unfolding Let_def
    using ok stable names_of_permutation [of staged' staged] basename_join [of name dir]
      basename_plain [of name]
    by (simp add: fstr_def)
qed

theorem create_tree_sorted_records_witness:
  "create_tree sample_digest sample_repr demo_root Map.empty
       [(''b.txt'', entry_bx), (''dir/a.txt'', entry_ax)]
     = (Inr ''5a34'',
        snd (create_tree sample_digest sample_repr demo_root Map.empty
               [(''b.txt'', entry_bx), (''dir/a.txt'', entry_ax)]))
   \<and> mset [(''dir/a.txt'', entry_ax), (''b.txt'', entry_bx)]
       = mset [(''b.txt'', entry_bx), (''dir/a.txt'', entry_ax)]
   \<and> CHR ''/'' \<notin> set ''a.txt''
   \<and> get_object demo_root
        (snd (create_tree sample_digest sample_repr demo_root Map.empty
                [(''b.txt'', entry_bx), (''dir/a.txt'', entry_ax)])) ''5a34''
       = Inr (''tree'', ''644 a.txt'' @ [NUL] @ ''h1'' @ [LF] @ ''644 b.txt'' @ [NUL] @ ''h2'' @ [LF])
   \<and> map (\<lambda>item. basename (fst item))
        (sort_key (\<lambda>item. basename (fst item)) [(''dir/a.txt'', entry_ax), (''b.txt'', entry_bx)])
       = [''a.txt'', ''b.txt'']
   \<and> basename (''dir'' @ ''/'' @ ''a.txt'') = ''a.txt''"
proof -
  let ?st = "[(''b.txt'', entry_bx), (''dir/a.txt'', entry_ax)]"
  let ?st' = "[(''dir/a.txt'', entry_ax), (''b.txt'', entry_bx)]"
  have e: "create_tree sample_digest sample_repr demo_root Map.empty ?st
     = (Inr ''5a34'', snd (create_tree sample_digest sample_repr demo_root Map.empty ?st))"
    using demo_create_tree by (metis prod.collapse)
  have m: "mset ?st' = mset ?st" by (simp add: add_mset_commute)
  have s: "CHR ''/'' \<notin> set ''a.txt''" by simp
  have items: "sort_key (\<lambda>item. basename (fst item)) ?st = [(''dir/a.txt'', entry_ax), (''b.txt'', entry_bx)]"
    by code_simp
  have c: "concat (map (\<lambda>item. fstr sample_repr (fe_mode (snd item)) @ '' ''
             @ basename (fst item) @ [NUL] @ fstr sample_repr (fe_hash (snd item)) @ [LF])
             [(''dir/a.txt'', entry_ax), (''b.txt'', entry_bx)])
      = ''644 a.txt'' @ [NUL] @ ''h1'' @ [LF] @ ''644 b.txt'' @ [NUL] @ ''h2'' @ [LF]"
    by code_simp
  have n: "map (\<lambda>item. basename (fst item)) [(''dir/a.txt'', entry_ax), (''b.txt'', entry_bx)]
      = [''a.txt'', ''b.txt'']"
    by code_simp
  note inst = create_tree_sorted_records [OF e, where staged' = ?st' and name = "''a.txt''"
      and dir = "''dir''", unfolded Let_def items c]
  from inst have g: "get_object demo_root
        (snd (create_tree sample_digest sample_repr demo_root Map.empty ?st)) ''5a34''
       = Inr (''tree'', ''644 a.txt'' @ [NUL] @ ''h1'' @ [LF] @ ''644 b.txt'' @ [NUL] @ ''h2'' @ [LF])"
    by blast
  from inst m n have p: "map (\<lambda>item. basename (fst item))
        (sort_key (\<lambda>item. basename (fst item)) ?st') = [''a.txt'', ''b.txt'']"
    by metis
  from inst s have b: "basename (''dir'' @ ''/'' @ ''a.txt'') = ''a.txt''"
    by blast
  from e m s g p b show ?thesis by blast
qed

text \<open>
  C3, as the code has it. The tree builder drops and overwrites nothing: the serialized tree
  is the concatenation of one record per staged path, each with the mode and the hash of
  that path's entry, ordered by the last segment of the path. The entries of the tree that
  bear a given name are the staged entries whose path ends in that name, all of them and in
  the order in which they were staged. So the names of the tree are the sorted last segments
  with repetitions, and they are pairwise distinct exactly when the last segments of the
  staged paths are.
\<close>

theorem create_tree_keeps_every_entry:
  "tree_content R (tree_entries staged)
     = concat (map (\<lambda>item. fstr R (fe_mode (snd item)) @ '' '' @ basename (fst item) @ [NUL]
                      @ fstr R (fe_hash (snd item)) @ [LF])
                (sort_key (\<lambda>item. basename (fst item)) staged))
   \<and> length (tree_entries staged) = length staged
   \<and> filter (\<lambda>entry. te_name entry = k) (tree_entries staged)
       = map (\<lambda>item. \<lparr>te_mode = fe_mode (snd item), te_name = k, te_hash = fe_hash (snd item),
                       te_type = ''blob''\<rparr>)
           (filter (\<lambda>item. basename (fst item) = k) staged)
   \<and> map te_name (tree_entries staged) = sort (map (\<lambda>item. basename (fst item)) staged)
   \<and> distinct (map te_name (tree_entries staged))
       = distinct (map (\<lambda>item. basename (fst item)) staged)
   \<and> fstr R (JStr s) = s
   \<and> basename (dir @ ''/'' @ filter (\<lambda>c. c \<noteq> CHR ''/'') name) = filter (\<lambda>c. c \<noteq> CHR ''/'') name
   \<and> basename (filter (\<lambda>c. c \<noteq> CHR ''/'') name) = filter (\<lambda>c. c \<noteq> CHR ''/'') name"
proof -
  have f: "filter (\<lambda>entry. te_name entry = k) (tree_entries staged)
      = map (\<lambda>item. \<lparr>te_mode = fe_mode (snd item), te_name = k, te_hash = fe_hash (snd item),
                       te_type = ''blob''\<rparr>)
          (filter (\<lambda>item. basename (fst item) = k) staged)"
  proof -
    have "filter (\<lambda>entry. te_name entry = k) (tree_entries staged)
        = filter (\<lambda>entry. te_name entry = k) (map tree_entry_of staged)"
      unfolding tree_entries_def by (rule sort_key_stable)
    also have "\<dots> = map tree_entry_of (filter (\<lambda>item. basename (fst item) = k) staged)"
      by (simp add: filter_map comp_def te_name_tree_entry_of)
    also have "\<dots> = map (\<lambda>item. \<lparr>te_mode = fe_mode (snd item), te_name = k,
          te_hash = fe_hash (snd item), te_type = ''blob''\<rparr>)
        (filter (\<lambda>item. basename (fst item) = k) staged)"
      by (rule map_cong) (auto simp: tree_entry_of_def)
    finally show ?thesis .
  qed
  have d: "distinct (map te_name (tree_entries staged))
      = distinct (map (\<lambda>item. basename (fst item)) staged)"
    by (simp add: tree_names_sort)
  have l: "length (tree_entries staged) = length staged"
    by (simp add: tree_entries_def)
  have b1: "basename (dir @ ''/'' @ filter (\<lambda>c. c \<noteq> CHR ''/'') name)
      = filter (\<lambda>c. c \<noteq> CHR ''/'') name"
    by (rule basename_join) simp
  have b2: "basename (filter (\<lambda>c. c \<noteq> CHR ''/'') name) = filter (\<lambda>c. c \<noteq> CHR ''/'') name"
    by (rule basename_plain) simp
  have s: "fstr R (JStr s) = s" by (simp add: fstr_def)
  from tree_serialized [of R staged] l f tree_names_sort [of staged] d s b1 b2
  show ?thesis by blast
qed

text \<open>
  C3, as the claim states it, fails: staging \<^verbatim>\<open>a/x\<close> and \<^verbatim>\<open>b/x\<close> gives a tree with two
  records named \<^verbatim>\<open>x\<close>; neither overwrites the other.
\<close>

theorem create_tree_duplicate_names:
  "tree_content sample_repr (tree_entries [(''a/x'', entry_ax), (''b/x'', entry_bx)])
     = ''644 x'' @ [NUL] @ ''h1'' @ [LF] @ ''644 x'' @ [NUL] @ ''h2'' @ [LF]"
  by code_simp

text \<open>
  C4, as the code has it. When the index file exists and its text is not JSON, so that the
  parser raises \<^verbatim>\<open>JSONDecodeError\<close>, \<open>load\<close> leaves the empty staging map and raises
  nothing. When the index file is missing, \<open>load\<close> leaves the entries as they are, and the
  constructor, which starts from the empty map, ends with the empty map.
\<close>

theorem Index_load_invalid_json:
  "(path_exists fs (index_path repo_path) \<and> read_text fs (index_path repo_path) = Inr text
      \<and> J text = Inl JSONDecodeError
     \<longrightarrow> Index_load J repo_path fs entries = Inr [])
   \<and> (\<not> path_exists fs (index_path repo_path)
     \<longrightarrow> Index_load J repo_path fs entries = Inr entries \<and> Index_init J repo_path fs = Inr [])"
  by (simp add: Index_load_def Index_init_def load_body_def load_except_def)

theorem Index_load_invalid_json_witness:
  "path_exists [index_path demo_root \<mapsto> File ''{''] (index_path demo_root)
   \<and> read_text [index_path demo_root \<mapsto> File ''{''] (index_path demo_root) = Inr ''{''
   \<and> reject_all ''{'' = Inl JSONDecodeError
   \<and> Index_load reject_all demo_root [index_path demo_root \<mapsto> File ''{''] [(''a'', entry_ax)] = Inr []
   \<and> \<not> path_exists Map.empty (index_path demo_root)
   \<and> Index_load reject_all demo_root Map.empty [(''a'', entry_ax)] = Inr [(''a'', entry_ax)]
   \<and> Index_init reject_all demo_root Map.empty = Inr []"
proof -
  have p: "index_path demo_root \<noteq> []" by code_simp
  have a: "path_exists [index_path demo_root \<mapsto> File ''{''] (index_path demo_root)"
    using p by (simp add: path_exists_def stat_def)
  have b: "read_text [index_path demo_root \<mapsto> File ''{''] (index_path demo_root) = Inr ''{''"
    using p by (simp add: read_text_def read_file_def stat_def decode_def byte_def)
  have c: "reject_all ''{'' = Inl JSONDecodeError" by (simp add: reject_all_def)
  have d: "\<not> path_exists Map.empty (index_path demo_root)"
    using p by (simp add: path_exists_def stat_def)
  from Index_load_invalid_json [of "[index_path demo_root \<mapsto> File ''{'']" demo_root "''{''"
      reject_all "[(''a'', entry_ax)]"] a b c
  have e: "Index_load reject_all demo_root [index_path demo_root \<mapsto> File ''{''] [(''a'', entry_ax)]
      = Inr []"
    by blast
  from Index_load_invalid_json [of Map.empty demo_root _ reject_all "[(''a'', entry_ax)]"] d
  have f: "Index_load reject_all demo_root Map.empty [(''a'', entry_ax)] = Inr [(''a'', entry_ax)]
      \<and> Index_init reject_all demo_root Map.empty = Inr []"
    by blast
  from a b c d e f show ?thesis by blast
qed

text \<open>
  C4, as the claim states it, fails: an index file whose bytes are not UTF-8 cannot be read
  as text, and the \<^verbatim>\<open>UnicodeDecodeError\<close> is not among the exceptions that \<open>load\<close> catches.
\<close>

theorem Index_load_undecodable_raises:
  "Index_load reject_all demo_root [index_path demo_root \<mapsto> File [CHR 0xFF]] []
     = Inl UnicodeDecodeError"
  by code_simp



subsection \<open>Lemmas on the repository layout\<close>

lemma path_parts_simple:
  assumes "CHR ''/'' \<notin> set name" and "name \<noteq> []" and "name \<noteq> ''.''"
  shows "path_parts name = [name]"
proof -
  have "split_on (CHR ''/'') name = [name]"
    using assms(1) by (induction name) auto
  with assms(2,3) show ?thesis by (simp add: path_parts_def)
qed

lemma pjoin_simple:
  assumes "CHR ''/'' \<notin> set name" and "name \<noteq> []" and "name \<noteq> ''.''"
  shows "pjoin p name = p @ [name]"
proof -
  from assms(1,2) have "\<not> startswith name ''/''"
    by (cases name) (auto simp: startswith_def)
  then show ?thesis by (simp add: pjoin_def path_parts_simple [OF assms])
qed

lemma pygit_path_eq: "pygit_path repo_path = repo_path @ [''.pygit'']"
  by (simp add: pygit_path_def PYGIT_DIR_def pjoin_simple)

lemma head_path_eq: "head_path repo_path = repo_path @ [''.pygit'', ''HEAD'']"
  by (simp add: head_path_def pygit_path_eq HEAD_FILE_def pjoin_simple)

lemma index_path_eq: "index_path repo_path = repo_path @ [''.pygit'', ''index'']"
  by (simp add: index_path_def PYGIT_DIR_def INDEX_FILE_def pjoin_simple)

lemma branch_path_eq:
  assumes "CHR ''/'' \<notin> set name" and "name \<noteq> []" and "name \<noteq> ''.''"
  shows "branch_path repo_path name = repo_path @ [''.pygit'', ''refs'', ''heads'', name]"
  by (simp add: branch_path_def pygit_path_eq REFS_DIR_def HEADS_DIR_def pjoin_simple
      pjoin_simple [OF assms])

lemma is_repository_iff: "is_repository repo_path fs \<longleftrightarrow> fs (repo_path @ [''.pygit'']) = Some Dir"
  by (auto simp: is_repository_def pygit_path_eq path_exists_def is_dir_def stat_def)

lemma write_text_frame: "p \<noteq> q \<Longrightarrow> snd (write_text fs q text) p = fs p"
  by (auto simp: write_text_def write_file_def encode_def
      split: option.splits node.splits sum.splits)

lemma write_text_ok:
  assumes "\<not> is_dir fs q" and "is_dir fs (parent_dir q)" and "utf8_valid text"
  shows "write_text fs q text = (Inr (), fs(q \<mapsto> File text))"
  using assms
  by (auto simp: write_text_def write_file_def encode_def is_dir_def
      split: option.splits node.splits)

subsection \<open>The claims on init and checkout\<close>

text \<open>
  C10. In a directory whose \<^verbatim>\<open>.pygit\<close> directory exists, \<open>init\<close> returns the message
  \<^verbatim>\<open>Repository already exists at <path>\<close> and writes nothing: the file system after the call
  is the file system before it.
\<close>

theorem init_existing_repository:
  assumes "fs (repo_path @ [''.pygit'']) = Some Dir"
  shows "init repo_path fs
     = (Inr (''Repository already exists at '' @ CHR ''/'' # join ''/'' repo_path), fs)"
  using assms by (simp add: init_def is_repository_iff path_str_def)

theorem init_existing_repository_witness:
  "[[''home'', ''repo'', ''.pygit''] \<mapsto> Dir] ([''home'', ''repo''] @ [''.pygit'']) = Some Dir
   \<and> init [''home'', ''repo''] [[''home'', ''repo'', ''.pygit''] \<mapsto> Dir]
      = (Inr ''Repository already exists at /home/repo'', [[''home'', ''repo'', ''.pygit''] \<mapsto> Dir])"
proof -
  have a: "[[''home'', ''repo'', ''.pygit''] \<mapsto> Dir] ([''home'', ''repo''] @ [''.pygit'']) = Some Dir"
    by simp
  from init_existing_repository [of "[[''home'', ''repo'', ''.pygit''] \<mapsto> Dir]"
      "[''home'', ''repo'']", OF a] a
  show ?thesis by simp
qed


subsection \<open>Well-formed text\<close>

lemma utf8_valid_ascii_append:
  "\<forall>c\<in>set a. byte c < 0x80 \<Longrightarrow> utf8_valid (a @ b) = utf8_valid b"
  by (induction a) auto

lemma utf8_valid_append: "utf8_valid a \<Longrightarrow> utf8_valid b \<Longrightarrow> utf8_valid (a @ b)"
proof (induction a rule: utf8_valid.induct)
  case 1
  then show ?case by simp
next
  case (2 c s)
  show ?case
  proof (cases "byte c < 0x80")
    case True
    with 2 show ?thesis by simp
  next
    case f1: False
    show ?thesis
    proof (cases "0xC2 \<le> byte c \<and> byte c \<le> 0xDF")
      case True
      with f1 2 show ?thesis by (cases s) (simp_all)
    next
      case f2: False
      show ?thesis
      proof (cases "0xE0 \<le> byte c \<and> byte c \<le> 0xEF")
        case True
        with f1 f2 2 show ?thesis
          by (cases s; cases "tl s") (auto split: list.splits)
      next
        case f3: False
        show ?thesis
        proof (cases "0xF0 \<le> byte c \<and> byte c \<le> 0xF4")
          case True
          with f1 f2 f3 2 show ?thesis
            by (cases s; cases "tl s"; cases "tl (tl s)") (auto split: list.splits)
        next
          case False
          with f1 f2 f3 "2.prems" show ?thesis by auto
        qed
      qed
    qed
  qed
qed

subsection \<open>The claim on checkout\<close>

text \<open>
  C8, as the claim states it, fails for a branch whose name cannot be encoded: its ref file
  exists, and \<open>checkout\<close> empties \<^verbatim>\<open>HEAD\<close> when it opens it and then raises
  \<^verbatim>\<open>UnicodeEncodeError\<close> on writing the name.
\<close>

theorem checkout_unencodable_name:
  "path_exists demo_repo_fs (branch_path demo_root [CHR 0xE9])
   \<and> demo_repo_fs (head_path demo_root) = Some (File (''ref: refs/heads/main'' @ [LF]))
   \<and> fst (checkout demo_root demo_repo_fs [CHR 0xE9]) = Inl UnicodeEncodeError
   \<and> snd (checkout demo_root demo_repo_fs [CHR 0xE9]) (head_path demo_root) = Some (File [])"
  by code_simp

text \<open>
  C8, as the code has it. In a repository (the \<^verbatim>\<open>.pygit\<close> directory exists): when the ref
  file of the branch exists, the name is well-formed text and \<^verbatim>\<open>HEAD\<close> is not a directory,
  \<open>checkout\<close> succeeds and the file system afterwards is the one before with \<^verbatim>\<open>HEAD\<close>
  holding \<^verbatim>\<open>ref: refs/heads/<name>\<close> and a newline; when the ref file is absent, \<open>checkout\<close>
  fails with the error that the branch does not exist and the file system is unchanged.
  Whatever the name and the outcome, every path other than \<^verbatim>\<open>HEAD\<close> (working files,
  objects, branch refs, the index) holds after the call what it held before. The ref file of
  a plain name is \<^verbatim>\<open>.pygit/refs/heads/<name>\<close>.
\<close>

theorem checkout_changes_head_only:
  "(fs (repo_path @ [''.pygit'']) = Some Dir
      \<and> path_exists fs (branch_path repo_path name) \<and> utf8_valid name
      \<and> fs (repo_path @ [''.pygit'', ''HEAD'']) \<noteq> Some Dir
     \<longrightarrow> checkout repo_path fs name
          = (Inr (''Switched to branch '' @ [SQ] @ name @ [SQ]),
             fs(repo_path @ [''.pygit'', ''HEAD''] \<mapsto> File (''ref: refs/heads/'' @ name @ [LF]))))
   \<and> (fs (repo_path @ [''.pygit'']) = Some Dir \<and> \<not> path_exists fs (branch_path repo_path name)
     \<longrightarrow> checkout repo_path fs name
          = (Inl (PyGitError (''Branch '' @ name @ '' does not exist'')), fs))
   \<and> (p \<noteq> repo_path @ [''.pygit'', ''HEAD'']
     \<longrightarrow> snd (checkout repo_path fs name) p = fs p)
   \<and> (CHR ''/'' \<notin> set name \<and> name \<noteq> [] \<and> name \<noteq> ''.''
     \<longrightarrow> path_exists fs (branch_path repo_path name)
          = (fs (repo_path @ [''.pygit'', ''refs'', ''heads'', name]) \<noteq> None))"
proof -
  let ?head = "repo_path @ [''.pygit'', ''HEAD'']"
  let ?text = "''ref: refs/heads/'' @ name @ [LF]"
  have ok: "checkout repo_path fs name
      = (Inr (''Switched to branch '' @ [SQ] @ name @ [SQ]), fs(?head \<mapsto> File ?text))"
    if r: "fs (repo_path @ [''.pygit'']) = Some Dir"
      and b: "path_exists fs (branch_path repo_path name)"
      and v: "utf8_valid name" and h: "fs ?head \<noteq> Some Dir"
  proof -
    have "utf8_valid (name @ [LF])"
      by (rule utf8_valid_append [OF v]) (simp add: byte_def)
    then have t: "utf8_valid ?text" by (simp add: byte_def)
    have nd: "\<not> is_dir fs ?head" using h by (simp add: is_dir_def stat_def)
    have pd: "is_dir fs (parent_dir ?head)"
      using r by (simp add: is_dir_def stat_def parent_dir_def butlast_append)
    show ?thesis
      using r b write_text_ok [OF nd pd t]
      by (simp add: checkout_def is_repository_iff head_path_eq)
  qed
  have absent: "checkout repo_path fs name
      = (Inl (PyGitError (''Branch '' @ name @ '' does not exist'')), fs)"
    if "fs (repo_path @ [''.pygit'']) = Some Dir" "\<not> path_exists fs (branch_path repo_path name)"
    using that by (simp add: checkout_def is_repository_iff)
  have sel: "snd (case r of (Inl e, f) \<Rightarrow> (Inl e, f) | (Inr u, f) \<Rightarrow> (Inr m, f)) = snd r"
    for r :: "(pyerror + unit) \<times> fs" and m :: string
    by (cases r; cases "fst r") auto
  have frame: "snd (checkout repo_path fs name) p = fs p" if "p \<noteq> ?head"
    using write_text_frame [OF that, of fs "?text"]
    by (simp add: checkout_def head_path_eq sel)
  have ex: "path_exists fs (branch_path repo_path name)
      = (fs (repo_path @ [''.pygit'', ''refs'', ''heads'', name]) \<noteq> None)"
    if "CHR ''/'' \<notin> set name" "name \<noteq> []" "name \<noteq> ''.''"
    using that by (simp add: branch_path_eq path_exists_def stat_def)
  from ok absent frame ex show ?thesis by blast
qed

theorem checkout_changes_head_only_witness:
  "demo_repo_fs (demo_root @ [''.pygit'']) = Some Dir
   \<and> path_exists demo_repo_fs (branch_path demo_root ''dev'') \<and> utf8_valid ''dev''
   \<and> demo_repo_fs (demo_root @ [''.pygit'', ''HEAD'']) \<noteq> Some Dir
   \<and> checkout demo_root demo_repo_fs ''dev''
       = (Inr (''Switched to branch '' @ [SQ] @ ''dev'' @ [SQ]),
          demo_repo_fs(demo_root @ [''.pygit'', ''HEAD''] \<mapsto> File (''ref: refs/heads/dev'' @ [LF])))
   \<and> \<not> path_exists demo_repo_fs (branch_path demo_root ''nope'')
   \<and> checkout demo_root demo_repo_fs ''nope''
       = (Inl (PyGitError ''Branch nope does not exist''), demo_repo_fs)
   \<and> [''repo'', ''a.txt''] \<noteq> demo_root @ [''.pygit'', ''HEAD'']
   \<and> snd (checkout demo_root demo_repo_fs ''dev'') [''repo'', ''a.txt''] = Some (File ''hello'')
   \<and> CHR ''/'' \<notin> set ''dev'' \<and> ''dev'' \<noteq> [] \<and> ''dev'' \<noteq> ''.''
   \<and> demo_repo_fs (demo_root @ [''.pygit'', ''refs'', ''heads'', ''dev'']) \<noteq> None"
proof -
  have r: "demo_repo_fs (demo_root @ [''.pygit'']) = Some Dir" by code_simp
  have b: "path_exists demo_repo_fs (branch_path demo_root ''dev'')" by code_simp
  have v: "utf8_valid ''dev''" by code_simp
  have h: "demo_repo_fs (demo_root @ [''.pygit'', ''HEAD'']) \<noteq> Some Dir" by code_simp
  have n: "\<not> path_exists demo_repo_fs (branch_path demo_root ''nope'')" by code_simp
  have q: "[''repo'', ''a.txt''] \<noteq> demo_root @ [''.pygit'', ''HEAD'']" by code_simp
  have a: "demo_repo_fs [''repo'', ''a.txt''] = Some (File ''hello'')" by code_simp
  have s: "CHR ''/'' \<notin> set ''dev'' \<and> ''dev'' \<noteq> [] \<and> ''dev'' \<noteq> ''.''" by simp
  note dev = checkout_changes_head_only [of demo_repo_fs demo_root "''dev''" "[''repo'', ''a.txt'']"]
  note nope = checkout_changes_head_only [of demo_repo_fs demo_root "''nope''" "[''repo'', ''a.txt'']"]
  from dev r b v h have 1: "checkout demo_root demo_repo_fs ''dev''
       = (Inr (''Switched to branch '' @ [SQ] @ ''dev'' @ [SQ]),
          demo_repo_fs(demo_root @ [''.pygit'', ''HEAD''] \<mapsto> File (''ref: refs/heads/dev'' @ [LF])))"
    by simp
  from nope r n have 2: "checkout demo_root demo_repo_fs ''nope''
       = (Inl (PyGitError ''Branch nope does not exist''), demo_repo_fs)"
    by simp
  from dev q a have 3: "snd (checkout demo_root demo_repo_fs ''dev'') [''repo'', ''a.txt'']
      = Some (File ''hello'')"
    by simp
  from dev s b have 4: "demo_repo_fs (demo_root @ [''.pygit'', ''refs'', ''heads'', ''dev'']) \<noteq> None"
    by blast
  from r b v h 1 n 2 q 3 s 4 show ?thesis by blast
qed


section \<open>Properties of commits\<close>

subsection \<open>Splitting, stripping and parsing\<close>

lemma split_on_nonempty: "split_on c s \<noteq> []"
  by (induction s) (auto split: list.splits)

lemma split_on_append:
  "c \<notin> set a \<Longrightarrow> split_on c (a @ c # b) = a # split_on c b"
  by (induction a) auto

lemma join_split_on: "join [c] (split_on c s) = s"
proof (induction s)
  case Nil
  then show ?case by simp
next
  case (Cons x s)
  obtain w ws where sp: "split_on c s = w # ws"
    using split_on_nonempty [of c s] by (cases "split_on c s") auto
  show ?case
  proof (cases "x = c")
    case True
    with Cons sp show ?thesis by simp
  next
    case False
    with Cons sp show ?thesis by (cases ws) auto
  qed
qed

lemma splitn_append:
  "c \<notin> set a \<Longrightarrow> splitn c (Suc k) (a @ c # b) = a # splitn c k b"
  by (induction a) auto

lemma rsplit_two:
  assumes "c \<notin> set n" and "c \<notin> set z"
  shows "rsplit c 2 (a @ c # n @ c # z) = [a, n, z]"
proof -
  have "rev (a @ c # n @ c # z) = rev z @ c # (rev n @ c # rev a)" by simp
  moreover have "splitn c 2 (rev z @ c # (rev n @ c # rev a)) = [rev z, rev n, rev a]"
    using assms by (simp add: numeral_2_eq_2 splitn_append)
  ultimately show ?thesis by (simp add: rsplit_def)
qed

lemma parse_lines_in_message:
  "ps_in_message st \<Longrightarrow>
     parse_lines F st ls = Inr (st\<lparr>ps_message_lines := ps_message_lines st @ ls\<rparr>)"
  by (induction ls arbitrary: st) (auto simp: parse_line_def)

lemma str_int_chars:
  assumes "c \<in> set (str_int i)"
  shows "c = CHR ''-'' \<or> (48 \<le> byte c \<and> byte c \<le> 57)"
  using assms str_nat_digits by (auto simp: str_int_def split: if_splits)

lemma str_int_no_SP: "SP \<notin> set (str_int i)"
  using str_int_chars [of SP i] by (auto simp: byte_def)

lemma str_int_no_LF: "LF \<notin> set (str_int i)"
  using str_int_chars [of LF i] by (auto simp: byte_def)

lemma str_int_ascii: "c \<in> set (str_int i) \<Longrightarrow> byte c < 0x80"
  using str_int_chars [of c i] by (auto simp: byte_def)

lemma lstrip_length: "length (lstrip s) \<le> length s"
  by (induction s rule: lstrip.induct) (subst lstrip.simps, auto)

lemma rstrip_rev_length: "length (rstrip_rev r) \<le> length r"
  by (induction r rule: rstrip_rev.induct) (subst rstrip_rev.simps, auto)

lemma lstrip_fixed: "lstrip s = s \<longleftrightarrow> ws_prefix s = 0"
proof
  assume a: "lstrip s = s"
  show "ws_prefix s = 0"
  proof (rule ccontr)
    assume n: "ws_prefix s \<noteq> 0"
    then have "s \<noteq> []" by auto
    with n have "length (drop (ws_prefix s) s) < length s" by simp
    moreover from n have "lstrip s = lstrip (drop (ws_prefix s) s)"
      by (subst lstrip.simps) simp
    ultimately have "length (lstrip s) < length s"
      using lstrip_length [of "drop (ws_prefix s) s"] by simp
    with a show False by simp
  qed
next
  assume "ws_prefix s = 0"
  then show "lstrip s = s" by (subst lstrip.simps) simp
qed

lemma rstrip_rev_fixed: "rstrip_rev r = r \<longleftrightarrow> ws_suffix_rev r = 0"
proof
  assume a: "rstrip_rev r = r"
  show "ws_suffix_rev r = 0"
  proof (rule ccontr)
    assume n: "ws_suffix_rev r \<noteq> 0"
    then have "r \<noteq> []" by auto
    with n have "length (drop (ws_suffix_rev r) r) < length r" by simp
    moreover from n have "rstrip_rev r = rstrip_rev (drop (ws_suffix_rev r) r)"
      by (subst rstrip_rev.simps) simp
    ultimately have "length (rstrip_rev r) < length r"
      using rstrip_rev_length [of "drop (ws_suffix_rev r) r"] by simp
    with a show False by simp
  qed
next
  assume "ws_suffix_rev r = 0"
  then show "rstrip_rev r = r" by (subst rstrip_rev.simps) simp
qed

lemma lstrip_suffix: "\<exists>k. lstrip s = drop k s"
proof (induction s rule: lstrip.induct)
  case (1 s)
  show ?case
  proof (cases "ws_prefix s = 0")
    case True
    then have "lstrip s = drop 0 s" by (subst lstrip.simps) simp
    then show ?thesis by blast
  next
    case False
    with 1 obtain k where "lstrip (drop (ws_prefix s) s) = drop k (drop (ws_prefix s) s)"
      by blast
    with False have "lstrip s = drop (k + ws_prefix s) s"
      by (subst lstrip.simps) (simp add: add.commute)
    then show ?thesis by blast
  qed
qed

lemma strip_fixed:
  assumes "strip m = m"
  shows "lstrip m = m" and "rstrip_rev (rev m) = rev m"
proof -
  from assms have e: "rstrip_rev (rev (lstrip m)) = rev m"
    by (metis strip_def rev_rev_ident)
  then have "length m \<le> length (lstrip m)"
    using rstrip_rev_length [of "rev (lstrip m)"] by (metis length_rev)
  with lstrip_length [of m] have l: "length (lstrip m) = length m" by simp
  obtain k where k: "lstrip m = drop k m" using lstrip_suffix by blast
  from l k have "length m - k = length m" by simp
  then have "k = 0 \<or> m = []" by (cases m) auto
  with k show a: "lstrip m = m" by auto
  from e a show "rstrip_rev (rev m) = rev m" by simp
qed


lemma ws_prefix_append_LF:
  assumes "ws_prefix m = 0" and "m \<noteq> []"
  shows "ws_prefix (m @ [LF]) = 0"
proof -
  from assms(2) obtain a s where m: "m = a # s" by (cases m) auto
  have lf: "byte LF = 10" by (simp add: byte_def)
  show ?thesis
  proof (cases s)
    case Nil
    with assms(1) m lf show ?thesis by (auto split: if_splits)
  next
    case (Cons b s1)
    show ?thesis
    proof (cases s1)
      case Nil
      with assms(1) m Cons lf show ?thesis by (auto split: if_splits)
    next
      case c2: (Cons c s2)
      have "ws_prefix (a # b # c # x) = ws_prefix (a # b # c # y)" for x y
        by simp
      from this [of "s2 @ [LF]" s2] assms(1) show ?thesis
        by (simp only: m Cons c2 append_Cons)
    qed
  qed
qed

lemma strip_append_LF:
  assumes "strip m = m"
  shows "strip (m @ [LF]) = m"
proof (cases "m = []")
  case True
  have "lstrip [LF] = []"
    by (subst lstrip.simps, simp add: byte_def ascii_space_def, subst lstrip.simps, simp)
  moreover have "rstrip_rev [] = []" by (subst rstrip_rev.simps) simp
  ultimately show ?thesis using True by (simp add: strip_def)
next
  case False
  note fx = strip_fixed [OF assms]
  from fx(1) have "ws_prefix m = 0" by (simp add: lstrip_fixed)
  from ws_prefix_append_LF [OF this False] have l: "lstrip (m @ [LF]) = m @ [LF]"
    by (simp add: lstrip_fixed)
  have "rstrip_rev (LF # rev m) = rstrip_rev (rev m)"
    by (subst rstrip_rev.simps) (simp add: byte_def ascii_space_def)
  with fx(2) l show ?thesis by (simp add: strip_def)
qed


lemma parse_tree_line:
  "\<not> ps_in_message st \<Longrightarrow> parse_line F st (''tree '' @ t) = Inr (st\<lparr>ps_tree := Some t\<rparr>)"
  by (simp add: parse_line_def startswith_def)

lemma parse_parent_line:
  "\<not> ps_in_message st \<Longrightarrow>
     parse_line F st (''parent '' @ q) = Inr (st\<lparr>ps_parent := Some q\<rparr>)"
  by (simp add: parse_line_def startswith_def)

lemma parse_author_line:
  assumes "\<not> ps_in_message st" and "F (str_int secs) = Inr x"
  shows "parse_line F st (''author '' @ a @ '' '' @ str_int secs @ '' +0000'')
     = Inr (st\<lparr>ps_author := Some a, ps_timestamp := Some x\<rparr>)"
proof -
  have "rsplit SP 2 (a @ SP # str_int secs @ SP # ''+0000'') = [a, str_int secs, ''+0000'']"
    by (rule rsplit_two) (simp_all add: str_int_no_SP)
  with assms show ?thesis by (simp add: parse_line_def startswith_def)
qed

lemma parse_committer_line:
  assumes "\<not> ps_in_message st"
  shows "parse_line F st (''committer '' @ cm @ '' '' @ str_int secs @ '' +0000'')
     = Inr (st\<lparr>ps_committer := Some cm\<rparr>)"
proof -
  have "rsplit SP 2 (cm @ SP # str_int secs @ SP # ''+0000'') = [cm, str_int secs, ''+0000'']"
    by (rule rsplit_two) (simp_all add: str_int_no_SP)
  with assms show ?thesis by (simp add: parse_line_def startswith_def)
qed

lemma parse_blank_line:
  "\<not> ps_in_message st \<Longrightarrow> parse_line F st [] = Inr (st\<lparr>ps_in_message := True\<rparr>)"
  by (simp add: parse_line_def startswith_def)

lemma parse_commit_text:
  assumes nl: "LF \<notin> set t" "LF \<notin> set a" "LF \<notin> set cm"
    and p: "p = None \<or> (\<exists>q. p = Some q \<and> q \<noteq> [] \<and> LF \<notin> set q)"
    and F: "F (str_int secs) = Inr x"
  shows "parse_lines F parse_init
      (split_on LF (''tree '' @ t @ [LF]
          @ (case p of None \<Rightarrow> [] | Some q \<Rightarrow> ''parent '' @ q @ [LF])
          @ ''author '' @ a @ '' '' @ str_int secs @ '' +0000'' @ [LF]
          @ ''committer '' @ cm @ '' '' @ str_int secs @ '' +0000'' @ [LF]
          @ [LF] @ m @ [LF]))
    = Inr \<lparr>ps_tree = Some t, ps_parent = p, ps_author = Some a, ps_committer = Some cm,
          ps_timestamp = Some x, ps_message_lines = split_on LF (m @ [LF]),
          ps_in_message = True\<rparr>"
proof -
  define tline where "tline = ''tree '' @ t"
  define aline where "aline = ''author '' @ a @ '' '' @ str_int secs @ '' +0000''"
  define cline where "cline = ''committer '' @ cm @ '' '' @ str_int secs @ '' +0000''"
  define body where "body = split_on LF (m @ [LF])"
  have al: "LF \<notin> set aline" using nl(2) by (simp add: aline_def str_int_no_LF)
  have cl: "LF \<notin> set cline" using nl(3) by (simp add: cline_def str_int_no_LF)
  have tl: "LF \<notin> set tline" using nl(1) by (simp add: tline_def)
  have Pt: "parse_line F st tline = Inr (st\<lparr>ps_tree := Some t\<rparr>)"
    if "\<not> ps_in_message st" for st
    unfolding tline_def using that by (rule parse_tree_line)
  have Pa: "parse_line F st aline = Inr (st\<lparr>ps_author := Some a, ps_timestamp := Some x\<rparr>)"
    if "\<not> ps_in_message st" for st
    unfolding aline_def using that F by (rule parse_author_line)
  have Pc: "parse_line F st cline = Inr (st\<lparr>ps_committer := Some cm\<rparr>)"
    if "\<not> ps_in_message st" for st
    unfolding cline_def using that by (rule parse_committer_line)
  have s3: "split_on LF (LF # m @ [LF]) = [] # body" by (simp add: body_def)
  have s2: "split_on LF (cline @ LF # LF # m @ [LF]) = cline # [] # body"
    using split_on_append [OF cl, of "LF # m @ [LF]"] by (simp only: s3)
  have s1: "split_on LF (aline @ LF # cline @ LF # LF # m @ [LF]) = aline # cline # [] # body"
    using split_on_append [OF al, of "cline @ LF # LF # m @ [LF]"] by (simp only: s2)
  have tail: "parse_lines F st (aline # cline # [] # body)
      = Inr (st\<lparr>ps_author := Some a, ps_timestamp := Some x, ps_committer := Some cm,
               ps_in_message := True, ps_message_lines := ps_message_lines st @ body\<rparr>)"
    if ni: "\<not> ps_in_message st" for st
  proof -
    let ?st1 = "st\<lparr>ps_author := Some a, ps_timestamp := Some x\<rparr>"
    let ?st2 = "?st1\<lparr>ps_committer := Some cm\<rparr>"
    let ?st3 = "?st2\<lparr>ps_in_message := True\<rparr>"
    have 1: "parse_line F st aline = Inr ?st1" using ni by (rule Pa)
    have 2: "parse_line F ?st1 cline = Inr ?st2" by (rule Pc) (simp add: ni)
    have 3: "parse_line F ?st2 [] = Inr ?st3" by (rule parse_blank_line) (simp add: ni)
    have 4: "parse_lines F ?st3 body
        = Inr (?st3\<lparr>ps_message_lines := ps_message_lines ?st3 @ body\<rparr>)"
      by (rule parse_lines_in_message) simp
    have "parse_lines F st (aline # cline # [] # body) = parse_lines F ?st3 body"
      by (simp only: parse_lines.simps 1 2 3 sum.case)
    with 4 show ?thesis by simp
  qed
  from p show ?thesis
  proof
    assume n: "p = None"
    have ser: "''tree '' @ t @ [LF]
          @ (case p of None \<Rightarrow> [] | Some q \<Rightarrow> ''parent '' @ q @ [LF])
          @ ''author '' @ a @ '' '' @ str_int secs @ '' +0000'' @ [LF]
          @ ''committer '' @ cm @ '' '' @ str_int secs @ '' +0000'' @ [LF]
          @ [LF] @ m @ [LF]
        = tline @ LF # aline @ LF # cline @ LF # LF # m @ [LF]"
      by (simp add: n tline_def aline_def cline_def)
    have sp: "split_on LF (tline @ LF # aline @ LF # cline @ LF # LF # m @ [LF])
        = tline # aline # cline # [] # body"
      using split_on_append [OF tl, of "aline @ LF # cline @ LF # LF # m @ [LF]"]
      by (simp only: s1)
    have i: "\<not> ps_in_message parse_init" by (simp add: parse_init_def)
    have "parse_lines F parse_init (tline # aline # cline # [] # body)
        = parse_lines F (parse_init\<lparr>ps_tree := Some t\<rparr>) (aline # cline # [] # body)"
      by (subst parse_lines.simps) (simp only: Pt [OF i] sum.case)
    also have "\<dots> = Inr (parse_init\<lparr>ps_tree := Some t, ps_author := Some a,
        ps_timestamp := Some x, ps_committer := Some cm, ps_in_message := True,
        ps_message_lines := ps_message_lines (parse_init\<lparr>ps_tree := Some t\<rparr>) @ body\<rparr>)"
      by (rule tail) (simp add: parse_init_def)
    finally show ?thesis
      unfolding ser sp by (simp add: parse_init_def n body_def)
  next
    assume "\<exists>q. p = Some q \<and> q \<noteq> [] \<and> LF \<notin> set q"
    then obtain q where q: "p = Some q" "LF \<notin> set q" by blast
    define pline where "pline = ''parent '' @ q"
    have pl: "LF \<notin> set pline" using q(2) by (simp add: pline_def)
    have Pp: "parse_line F st pline = Inr (st\<lparr>ps_parent := Some q\<rparr>)"
      if "\<not> ps_in_message st" for st
      unfolding pline_def using that by (rule parse_parent_line)
    have ser: "''tree '' @ t @ [LF]
          @ (case p of None \<Rightarrow> [] | Some q \<Rightarrow> ''parent '' @ q @ [LF])
          @ ''author '' @ a @ '' '' @ str_int secs @ '' +0000'' @ [LF]
          @ ''committer '' @ cm @ '' '' @ str_int secs @ '' +0000'' @ [LF]
          @ [LF] @ m @ [LF]
        = tline @ LF # pline @ LF # aline @ LF # cline @ LF # LF # m @ [LF]"
      by (simp add: q tline_def aline_def cline_def pline_def)
    have sq: "split_on LF (pline @ LF # aline @ LF # cline @ LF # LF # m @ [LF])
        = pline # aline # cline # [] # body"
      using split_on_append [OF pl, of "aline @ LF # cline @ LF # LF # m @ [LF]"]
      by (simp only: s1)
    have sp: "split_on LF (tline @ LF # pline @ LF # aline @ LF # cline @ LF # LF # m @ [LF])
        = tline # pline # aline # cline # [] # body"
      using split_on_append [OF tl, of "pline @ LF # aline @ LF # cline @ LF # LF # m @ [LF]"]
      by (simp only: sq)
    have i: "\<not> ps_in_message parse_init" by (simp add: parse_init_def)
    have i2: "\<not> ps_in_message (parse_init\<lparr>ps_tree := Some t\<rparr>)"
      by (simp add: parse_init_def)
    have "parse_lines F parse_init (tline # pline # aline # cline # [] # body)
        = parse_lines F (parse_init\<lparr>ps_tree := Some t, ps_parent := Some q\<rparr>)
            (aline # cline # [] # body)"
      by (subst parse_lines.simps, simp only: Pt [OF i] sum.case,
          subst parse_lines.simps, simp only: Pp [OF i2] sum.case)
    also have "\<dots> = Inr (parse_init\<lparr>ps_tree := Some t, ps_parent := Some q,
        ps_author := Some a, ps_timestamp := Some x, ps_committer := Some cm,
        ps_in_message := True,
        ps_message_lines := ps_message_lines (parse_init\<lparr>ps_tree := Some t,
          ps_parent := Some q\<rparr>) @ body\<rparr>)"
      by (rule tail) (simp add: parse_init_def)
    finally show ?thesis
      unfolding ser sp by (simp add: parse_init_def q body_def)
  qed
qed

subsection \<open>Serializing, storing and loading a commit\<close>

text \<open>
  C9, as the code has it. Take a commit whose tree, author and committer are strings without a
  newline, whose parent is absent or is a non-empty string without a newline, whose timestamp
  is a finite number \<open>r\<close> and whose message is its own stripped form. When serializing it
  succeeds (its fields are well-formed text) and the text is stored as a commit object, loading
  the stored hash gives back the same tree, parent, author, committer and message. The
  timestamp comes back as \<^verbatim>\<open>float(int(timestamp))\<close>, the number truncated towards zero to
  whole seconds, given that \<^verbatim>\<open>float\<close> reads the decimal text of that integer as that number;
  the hash field of the loaded commit is the stored hash. The text that is stored is the tree
  line, the parent line when there is a parent, the author and committer lines with the whole
  seconds and \<^verbatim>\<open>+0000\<close>, an empty line and the message.
\<close>

theorem commit_roundtrip:
  assumes c: "c = \<lparr>tree = Some t, parent = p, author = Some a, committer = Some cm,
        timestamp = Some (Float r), message = m, co_hash = hh\<rparr>"
    and secs: "secs = (if 0 \<le> r then \<lfloor>r\<rfloor> else \<lceil>r\<rceil>)"
    and p: "p = None \<or> (\<exists>q. p = Some q \<and> q \<noteq> [] \<and> LF \<notin> set q)"
    and nl: "LF \<notin> set t" "LF \<notin> set a" "LF \<notin> set cm"
    and m: "strip m = m"
    and F: "F (str_int secs) = Inr (Float (of_int secs))"
    and ser: "serialize_commit c = Inr content"
    and st: "store_object H repo_path fs content ''commit'' = (Inr h, fs')"
  shows "load_commit F repo_path fs' h
      = Inr \<lparr>tree = Some t, parent = p, author = Some a, committer = Some cm,
             timestamp = Some (Float (of_int secs)), message = m, co_hash = Some h\<rparr>
    \<and> content = ''tree '' @ t @ [LF]
          @ (case p of None \<Rightarrow> [] | Some q \<Rightarrow> ''parent '' @ q @ [LF])
          @ ''author '' @ a @ '' '' @ str_int secs @ '' +0000'' @ [LF]
          @ ''committer '' @ cm @ '' '' @ str_int secs @ '' +0000'' @ [LF]
          @ [LF] @ m @ [LF]"
proof -
  let ?text = "''tree '' @ t @ [LF]
          @ (case p of None \<Rightarrow> [] | Some q \<Rightarrow> ''parent '' @ q @ [LF])
          @ ''author '' @ a @ '' '' @ str_int secs @ '' +0000'' @ [LF]
          @ ''committer '' @ cm @ '' '' @ str_int secs @ '' +0000'' @ [LF]
          @ [LF] @ m @ [LF]"
  have ti: "timestamp_int c = Inr secs"
    by (simp add: timestamp_int_def py_int_def c secs)
  have fields: "tree c = Some t" "parent c = p" "author c = Some a" "committer c = Some cm"
    "message c = m"
    by (simp_all add: c)
  have "serialize_commit c = encode ?text"
    using p by (auto simp: serialize_commit_def Let_def ti fields truthy_def fmt_opt_def)
  with ser have "encode ?text = Inr content" by (simp only:)
  then have "utf8_valid ?text \<and> content = ?text" by (simp only: encode_Inr)
  then have content: "content = ?text" and valid: "utf8_valid content" by blast+
  have get: "get_object repo_path fs' h = Inr (''commit'', content)"
    by (rule get_after_store [OF st]) (auto simp: plain_def ascii_space_def byte_def)
  have parse: "parse_lines F parse_init (split_on LF content)
      = Inr \<lparr>ps_tree = Some t, ps_parent = p, ps_author = Some a, ps_committer = Some cm,
            ps_timestamp = Some (Float (of_int secs)),
            ps_message_lines = split_on LF (m @ [LF]), ps_in_message = True\<rparr>"
    unfolding content
    using nl p F by (rule parse_commit_text [where F = F and secs = secs])
  have msg: "strip (join [LF] (split_on LF (m @ [LF]))) = m"
    by (simp only: join_split_on strip_append_LF [OF m])
  have "load_commit F repo_path fs' h
      = Inr \<lparr>tree = Some t, parent = p, author = Some a, committer = Some cm,
             timestamp = Some (Float (of_int secs)), message = m, co_hash = Some h\<rparr>"
    unfolding load_commit_def get
    by (simp add: decode_def valid parse msg)
  then show ?thesis using content by (rule conjI)
qed

theorem commit_roundtrip_witness:
  "demo_commit = \<lparr>tree = Some ''5a34'', parent = Some ''5a90'',
       author = Some ''Ann <ann@example.org>'', committer = Some ''Ann <ann@example.org>'',
       timestamp = Some (Float (3 / 2)), message = ''first'', co_hash = None\<rparr>
   \<and> (1::int) = (if 0 \<le> (3 / 2 :: rat) then \<lfloor>3 / 2 :: rat\<rfloor> else \<lceil>3 / 2 :: rat\<rceil>)
   \<and> LF \<notin> set ''5a34'' \<and> LF \<notin> set ''5a90'' \<and> LF \<notin> set ''Ann <ann@example.org>''
   \<and> strip ''first'' = ''first''
   \<and> float_literal (str_int 1) = Inr (Float (of_int 1))
   \<and> serialize_commit demo_commit
       = Inr (''tree 5a34'' @ [LF] @ ''parent 5a90'' @ [LF]
              @ ''author Ann <ann@example.org> 1 +0000'' @ [LF]
              @ ''committer Ann <ann@example.org> 1 +0000'' @ [LF] @ [LF] @ ''first'' @ [LF])
   \<and> load_commit float_literal demo_root
        (snd (store_object sample_digest demo_root Map.empty
               (''tree 5a34'' @ [LF] @ ''parent 5a90'' @ [LF]
                @ ''author Ann <ann@example.org> 1 +0000'' @ [LF]
                @ ''committer Ann <ann@example.org> 1 +0000'' @ [LF] @ [LF] @ ''first'' @ [LF])
               ''commit''))
        ''5a117''
       = Inr \<lparr>tree = Some ''5a34'', parent = Some ''5a90'',
              author = Some ''Ann <ann@example.org>'', committer = Some ''Ann <ann@example.org>'',
              timestamp = Some (Float (of_int 1)), message = ''first'', co_hash = Some ''5a117''\<rparr>"
proof -
  let ?text = "''tree 5a34'' @ [LF] @ ''parent 5a90'' @ [LF]
              @ ''author Ann <ann@example.org> 1 +0000'' @ [LF]
              @ ''committer Ann <ann@example.org> 1 +0000'' @ [LF] @ [LF] @ ''first'' @ [LF]"
  have c: "demo_commit = \<lparr>tree = Some ''5a34'', parent = Some ''5a90'',
       author = Some ''Ann <ann@example.org>'', committer = Some ''Ann <ann@example.org>'',
       timestamp = Some (Float (3 / 2)), message = ''first'', co_hash = None\<rparr>"
    by (simp add: demo_commit_def)
  have "\<lfloor>3 / 2 :: rat\<rfloor> = 1" by (simp add: floor_eq_iff)
  then have secs: "(1::int) = (if 0 \<le> (3 / 2 :: rat) then \<lfloor>3 / 2 :: rat\<rfloor> else \<lceil>3 / 2 :: rat\<rceil>)"
    by simp
  have p: "Some ''5a90'' = None \<or> (\<exists>q. Some ''5a90'' = Some q \<and> q \<noteq> [] \<and> LF \<notin> set q)"
    by simp
  have nl: "LF \<notin> set ''5a34''" "LF \<notin> set ''Ann <ann@example.org>''"
    "LF \<notin> set ''Ann <ann@example.org>''"
    by simp_all
  have nq: "LF \<notin> set ''5a90''" by simp
  have m: "strip ''first'' = ''first''" by code_simp
  have F: "float_literal (str_int 1) = Inr (Float (of_int 1))" by code_simp
  have ser: "serialize_commit demo_commit = Inr ?text" by code_simp
  have "fst (store_object sample_digest demo_root Map.empty ?text ''commit'') = Inr ''5a117''"
    by code_simp
  then have st: "store_object sample_digest demo_root Map.empty ?text ''commit''
      = (Inr ''5a117'', snd (store_object sample_digest demo_root Map.empty ?text ''commit''))"
    by (metis prod.collapse)
  note r = commit_roundtrip [where F = float_literal and secs = "1::int",
      OF c secs p nl m F ser st, THEN conjunct1]
  from c secs nl(1) nq nl(2) m F ser r show ?thesis by blast
qed

text \<open>
  C9, as the claim states it, fails: a commit whose parent is the empty string satisfies what
  the claim asks of the author, the committer and the message, but \<^verbatim>\<open>if commit.parent:\<close> is
  false for it, no parent line is written, and the commit that is loaded has no parent.
\<close>

theorem commit_empty_parent_lost:
  "parent commit_empty_parent = Some []
   \<and> LF \<notin> set ''Ann <ann@example.org>'' \<and> strip ''first'' = ''first''
   \<and> serialize_commit commit_empty_parent
       = Inr (''tree 5a34'' @ [LF]
              @ ''author Ann <ann@example.org> 1 +0000'' @ [LF]
              @ ''committer Ann <ann@example.org> 1 +0000'' @ [LF] @ [LF] @ ''first'' @ [LF])
   \<and> fst (store_object sample_digest demo_root Map.empty
             (''tree 5a34'' @ [LF]
              @ ''author Ann <ann@example.org> 1 +0000'' @ [LF]
              @ ''committer Ann <ann@example.org> 1 +0000'' @ [LF] @ [LF] @ ''first'' @ [LF])
             ''commit'') = Inr ''5a104''
   \<and> load_commit float_literal demo_root
        (snd (store_object sample_digest demo_root Map.empty
               (''tree 5a34'' @ [LF]
                @ ''author Ann <ann@example.org> 1 +0000'' @ [LF]
                @ ''committer Ann <ann@example.org> 1 +0000'' @ [LF] @ [LF] @ ''first'' @ [LF])
               ''commit''))
        ''5a104''
       = Inr \<lparr>tree = Some ''5a34'', parent = None,
              author = Some ''Ann <ann@example.org>'', committer = Some ''Ann <ann@example.org>'',
              timestamp = Some (Float 1), message = ''first'', co_hash = Some ''5a104''\<rparr>"
  by code_simp

text \<open>
  The other conditions matter too. A newline in the tree ends the tree line early, and what
  follows it is read as a line of its own: here it comes back as the parent.
\<close>

lemma commit_newline_tree_split:
  "serialize_commit commit_newline_tree
     = Inr (''tree 5a34'' @ [LF] @ ''parent 5a90'' @ [LF]
            @ ''author Ann <ann@example.org> 1 +0000'' @ [LF]
            @ ''committer Ann <ann@example.org> 1 +0000'' @ [LF] @ [LF] @ ''first'' @ [LF])
   \<and> load_commit float_literal demo_root
        (snd (store_object sample_digest demo_root Map.empty
               (''tree 5a34'' @ [LF] @ ''parent 5a90'' @ [LF]
                @ ''author Ann <ann@example.org> 1 +0000'' @ [LF]
                @ ''committer Ann <ann@example.org> 1 +0000'' @ [LF] @ [LF] @ ''first'' @ [LF])
               ''commit''))
        ''5a117''
       = Inr \<lparr>tree = Some ''5a34'', parent = Some ''5a90'',
              author = Some ''Ann <ann@example.org>'', committer = Some ''Ann <ann@example.org>'',
              timestamp = Some (Float 1), message = ''first'', co_hash = Some ''5a117''\<rparr>"
  by code_simp

section \<open>Properties of the log\<close>

subsection \<open>The parent chain\<close>

lemma parent_chain_head:
  "parent_chain F repo_path fs h chain \<Longrightarrow> chain \<noteq> [] \<and> fst (hd chain) = h \<and> h \<noteq> []"
  by (cases chain) auto

lemma parent_chain_last:
  "parent_chain F repo_path fs h chain \<Longrightarrow> \<not> truthy (parent (snd (last chain)))"
proof (induction chain arbitrary: h)
  case Nil
  then show ?case by simp
next
  case (Cons xc rest)
  obtain x c where xc: "xc = (x, c)" by (cases xc)
  show ?case
  proof (cases rest)
    case Nil
    with Cons.prems xc show ?thesis by simp
  next
    case (Cons yc rest')
    obtain y d where yc: "yc = (y, d)" by (cases yc)
    from Cons.prems xc Cons yc have "parent_chain F repo_path fs y rest" by simp
    from Cons.IH [OF this] Cons show ?thesis by simp
  qed
qed

lemma parent_chain_loads:
  "parent_chain F repo_path fs h chain \<Longrightarrow>
     list_all (\<lambda>xc. load_commit F repo_path fs (fst xc) = Inr (snd xc)) chain"
proof (induction chain arbitrary: h)
  case Nil
  then show ?case by simp
next
  case (Cons xc rest)
  obtain x c where xc: "xc = (x, c)" by (cases xc)
  show ?case
  proof (cases rest)
    case Nil
    with Cons.prems xc show ?thesis by simp
  next
    case (Cons yc rest')
    obtain y d where yc: "yc = (y, d)" by (cases yc)
    from Cons.prems xc Cons yc have "parent_chain F repo_path fs y rest" by simp
    from Cons.IH [OF this] Cons.prems xc show ?thesis by simp
  qed
qed

lemma parent_chain_links:
  "parent_chain F repo_path fs h chain \<Longrightarrow>
     map (\<lambda>xc. parent (snd xc)) (butlast chain) = map (\<lambda>xc. Some (fst xc)) (tl chain)"
proof (induction chain arbitrary: h)
  case Nil
  then show ?case by simp
next
  case (Cons xc rest)
  obtain x c where xc: "xc = (x, c)" by (cases xc)
  show ?case
  proof (cases rest)
    case Nil
    then show ?thesis by simp
  next
    case (Cons yc rest')
    obtain y d where yc: "yc = (y, d)" by (cases yc)
    from Cons.prems xc Cons yc have ch: "parent_chain F repo_path fs y rest"
      and pa: "parent c = Some y" by simp_all
    from Cons.IH [OF ch] pa xc Cons yc show ?thesis by simp
  qed
qed

lemma log_loop_chain:
  assumes "parent_chain F repo_path fs h chain"
    and "map (\<lambda>xc. log_entry D (fst xc) (snd xc)) (take (nat (limit - cnt)) chain) = map Inr es"
  shows "log_loop F D repo_path fs (Some h) cnt limit logs = Inr (logs @ es)"
  using assms
proof (induction chain arbitrary: h cnt logs es)
  case Nil
  then show ?case by simp
next
  case (Cons xc rest)
  obtain x c where xc: "xc = (x, c)" by (cases xc)
  from Cons.prems(1) xc have h: "x = h" "h \<noteq> []" and ld: "load_commit F repo_path fs h = Inr c"
    by simp_all
  show ?case
  proof (cases "cnt < limit")
    case False
    then have "nat (limit - cnt) = 0" by simp
    with Cons.prems(2) have "es = []" by simp
    with False show ?thesis by (subst log_loop.simps) simp
  next
    case True
    then have n: "nat (limit - cnt) = Suc (nat (limit - (cnt + 1)))" by simp
    from Cons.prems(2) obtain e es' where es: "es = e # es'"
      and e: "log_entry D h c = Inr e"
      and rest: "map (\<lambda>xc. log_entry D (fst xc) (snd xc)) (take (nat (limit - (cnt + 1))) rest)
          = map Inr es'"
      unfolding n by (cases es) (auto simp: xc h)
    have step: "log_loop F D repo_path fs (Some h) cnt limit logs
        = log_loop F D repo_path fs (parent c) (cnt + 1) limit (logs @ [e])"
      by (subst log_loop.simps) (simp add: h True ld e)
    show ?thesis
    proof (cases rest)
      case Nil
      with Cons.prems(1) xc have np: "\<not> truthy (parent c)" by simp
      from Nil rest have "es' = []" by simp
      moreover from np have "log_loop F D repo_path fs (parent c) (cnt + 1) limit (logs @ [e])
          = Inr (logs @ [e])"
        by (subst log_loop.simps) (auto simp: truthy_def split: option.splits)
      ultimately show ?thesis by (simp add: step es)
    next
      case (Cons yc rest')
      obtain y d where yc: "yc = (y, d)" by (cases yc)
      from Cons.prems(1) xc Cons yc have ch: "parent_chain F repo_path fs y rest"
        and pa: "parent c = Some y" by simp_all
      from Cons.IH [OF ch rest, of "logs @ [e]"] show ?thesis
        by (simp add: step pa es)
    qed
  qed
qed

lemma log_entries_of_dates:
  "map (\<lambda>xc. case timestamp (snd xc) of None \<Rightarrow> Inl TypeError | Some ts \<Rightarrow> D ts) xs
      = map Inr dates \<Longrightarrow>
   map (\<lambda>xc. log_entry D (fst xc) (snd xc)) xs
      = map Inr (map2 (\<lambda>xc date. ''commit '' @ fst xc @ [LF]
                          @ ''Author: '' @ fmt_opt (author (snd xc)) @ [LF]
                          @ ''Date: '' @ date @ [LF, LF]
                          @ ''    '' @ message (snd xc) @ [LF]) xs dates)"
proof (induction xs arbitrary: dates)
  case Nil
  then show ?case by simp
next
  case (Cons xc xs)
  then obtain d ds where "dates = d # ds" by (cases dates) auto
  with Cons show ?case by (auto simp: log_entry_def)
qed

subsection \<open>The log follows the parent chain\<close>

text \<open>
  C7. Let the directory be a repository whose \<^verbatim>\<open>HEAD\<close> resolves to the commit \<open>h\<close>, let \<open>chain\<close>
  be the parent chain that \<open>h\<close> heads (each commit of it is the one that loading its hash
  gives, each but the last names the next as its parent, and the last, the root, has no parent
  to follow), and let \<open>limit\<close> be non-negative. When the date of each of the first \<open>limit\<close>
  commits of the chain can be printed (the commit carries a timestamp, and \<^verbatim>\<open>strftime\<close> renders
  it as \<open>date\<close>), \<open>log\<close> returns the entries of exactly the first \<open>min limit (length chain)\<close>
  commits of the chain, joined by newlines, in the order of the chain: the head commit first,
  then its parent, and so on, no further than the root. An entry is the line
  \<^verbatim>\<open>commit <hash>\<close>, the line \<^verbatim>\<open>Author: <author>\<close>, the line \<^verbatim>\<open>Date: <date>\<close>, an empty line, and
  the message indented by four spaces.
\<close>

theorem log_follows_parent_chain:
  assumes repo: "fs (repo_path @ [''.pygit'']) = Some Dir"
    and head: "get_head_commit repo_path fs = Inr (Some h)"
    and chain: "parent_chain F repo_path fs h chain"
    and limit: "0 \<le> limit"
    and dates: "map (\<lambda>xc. case timestamp (snd xc) of None \<Rightarrow> Inl TypeError | Some ts \<Rightarrow> D ts)
          (take (nat limit) chain) = map Inr dates"
  shows "repo_log F D repo_path fs limit
      = Inr (join [LF]
          (map2 (\<lambda>xc date. ''commit '' @ fst xc @ [LF]
                    @ ''Author: '' @ fmt_opt (author (snd xc)) @ [LF]
                    @ ''Date: '' @ date @ [LF, LF]
                    @ ''    '' @ message (snd xc) @ [LF])
             (take (nat limit) chain) dates))
    \<and> length dates = min (nat limit) (length chain)
    \<and> fst (hd chain) = h
    \<and> \<not> truthy (parent (snd (last chain)))
    \<and> list_all (\<lambda>xc. load_commit F repo_path fs (fst xc) = Inr (snd xc)) chain
    \<and> map (\<lambda>xc. parent (snd xc)) (butlast chain) = map (\<lambda>xc. Some (fst xc)) (tl chain)"
proof -
  let ?es = "map2 (\<lambda>xc date. ''commit '' @ fst xc @ [LF]
                    @ ''Author: '' @ fmt_opt (author (snd xc)) @ [LF]
                    @ ''Date: '' @ date @ [LF, LF]
                    @ ''    '' @ message (snd xc) @ [LF])
             (take (nat limit) chain) dates"
  note hd = parent_chain_head [OF chain]
  from hd have t: "truthy (Some h)" by (simp add: truthy_def)
  have "map (\<lambda>xc. log_entry D (fst xc) (snd xc)) (take (nat (limit - 0)) chain) = map Inr ?es"
    using log_entries_of_dates [OF dates] by simp
  from log_loop_chain [OF chain this, of "[]"]
  have loop: "log_loop F D repo_path fs (Some h) 0 limit [] = Inr ?es" by simp
  have 1: "repo_log F D repo_path fs limit = Inr (join [LF] ?es)"
    using repo by (simp add: repo_log_def is_repository_iff head t loop del: join.simps)
  from dates have "length (take (nat limit) chain) = length dates"
    by (metis length_map)
  then have 2: "length dates = min (nat limit) (length chain)" by (simp add: min.commute)
  from 1 2 hd parent_chain_last [OF chain] parent_chain_loads [OF chain]
    parent_chain_links [OF chain]
  show ?thesis by blast
qed

theorem log_follows_parent_chain_witness:
  "demo_log_fs (demo_root @ [''.pygit'']) = Some Dir
   \<and> get_head_commit demo_root demo_log_fs = Inr (Some ''5a02'')
   \<and> parent_chain float_literal demo_root demo_log_fs ''5a02''
        [(''5a02'', demo_second), (''5a01'', demo_first)]
   \<and> (0::int) \<le> 10
   \<and> map (\<lambda>xc. case timestamp (snd xc) of None \<Rightarrow> Inl TypeError | Some ts \<Rightarrow> sample_date ts)
        (take (nat 10) [(''5a02'', demo_second), (''5a01'', demo_first)])
       = map Inr [''200'', ''100'']
   \<and> repo_log float_literal sample_date demo_root demo_log_fs 10
       = Inr (''commit 5a02'' @ [LF] @ ''Author: Ann <ann@example.org>'' @ [LF]
              @ ''Date: 200'' @ [LF, LF] @ ''    second'' @ [LF] @ [LF]
              @ ''commit 5a01'' @ [LF] @ ''Author: Ann <ann@example.org>'' @ [LF]
              @ ''Date: 100'' @ [LF, LF] @ ''    first'' @ [LF])"
proof -
  let ?chain = "[(''5a02'', demo_second), (''5a01'', demo_first)]"
  have r: "demo_log_fs (demo_root @ [''.pygit'']) = Some Dir" by code_simp
  have h: "get_head_commit demo_root demo_log_fs = Inr (Some ''5a02'')" by code_simp
  have c: "parent_chain float_literal demo_root demo_log_fs ''5a02'' ?chain" by code_simp
  have l: "(0::int) \<le> 10" by simp
  have d: "map (\<lambda>xc. case timestamp (snd xc) of None \<Rightarrow> Inl TypeError | Some ts \<Rightarrow> sample_date ts)
        (take (nat 10) ?chain) = map Inr [''200'', ''100'']"
    by code_simp
  have e: "join [LF]
          (map2 (\<lambda>xc date. ''commit '' @ fst xc @ [LF]
                    @ ''Author: '' @ fmt_opt (author (snd xc)) @ [LF]
                    @ ''Date: '' @ date @ [LF, LF]
                    @ ''    '' @ message (snd xc) @ [LF])
             (take (nat 10) ?chain) [''200'', ''100''])
      = ''commit 5a02'' @ [LF] @ ''Author: Ann <ann@example.org>'' @ [LF]
              @ ''Date: 200'' @ [LF, LF] @ ''    second'' @ [LF] @ [LF]
              @ ''commit 5a01'' @ [LF] @ ''Author: Ann <ann@example.org>'' @ [LF]
              @ ''Date: 100'' @ [LF, LF] @ ''    first'' @ [LF]"
    by code_simp
  from log_follows_parent_chain [where F = float_literal and D = sample_date, OF r h c l d,
      THEN conjunct1, unfolded e]
  have "repo_log float_literal sample_date demo_root demo_log_fs 10
       = Inr (''commit 5a02'' @ [LF] @ ''Author: Ann <ann@example.org>'' @ [LF]
              @ ''Date: 200'' @ [LF, LF] @ ''    second'' @ [LF] @ [LF]
              @ ''commit 5a01'' @ [LF] @ ''Author: Ann <ann@example.org>'' @ [LF]
              @ ''Date: 100'' @ [LF, LF] @ ''    first'' @ [LF])" .
  with r h c l d show ?thesis by blast
qed

text \<open>With a limit below the length of the chain, only the newest commits are shown.\<close>

lemma demo_log_limit_one:
  "repo_log float_literal sample_date demo_root demo_log_fs 1
     = Inr (''commit 5a02'' @ [LF] @ ''Author: Ann <ann@example.org>'' @ [LF]
              @ ''Date: 200'' @ [LF, LF] @ ''    second'' @ [LF])"
  by code_simp

lemma demo_log_limit_zero:
  "repo_log float_literal sample_date demo_root demo_log_fs 0 = Inr []"
  by code_simp

end
